theory Spec2Isabelle
  imports Main
begin

section \<open>Data model of script.js\<close>

text \<open>
  The application keeps one global \<open>state\<close> object and a few module-level variables for
  its two periodic tasks. The model passes them around as one record. Alerts, the
  persistent store (\<open>saveState\<close>), the audio beep and the writes to the page change
  nothing that the operations below read and are left out. Of the rendering the model
  keeps \<open>renderActiveExercises\<close>, which can throw in the middle of an operation.
  \<open>Date.now()\<close> and the answer to \<open>confirm(...)\<close> are arguments of the operations that
  read them.

  Identifiers are JavaScript numbers holding integers (\<open>Date.now()\<close>), modelled as
  \<open>int\<close>. A property that may be \<open>undefined\<close> or \<open>null\<close> is an \<open>option\<close>.
  Weights, repetitions and rep targets are the strings typed into the text fields.
  A date is the instant (milliseconds since the epoch) that the stored ISO-8601 string
  denotes, which is what \<open>new Date(record.date)\<close> reads back.
\<close>

text \<open>An entry of the catalog \<open>state.exercises\<close>: \<open>{id, name, category, restTime}\<close>.\<close>

record exercise_def =
  e_id :: int
  e_name :: string
  e_category :: string
  e_restTime :: int

text \<open>A target set of a template, \<open>{reps}\<close>, and a template's exercise entry
  \<open>{exerciseId, restTime, sets}\<close>, whose \<open>restTime\<close> may be \<open>undefined\<close>.\<close>

record template_set =
  ts_reps :: string

record template_exercise =
  t_exerciseId :: int
  t_restTime :: "int option"
  t_sets :: "template_set list"

record workout_template =
  wt_id :: "int option"
  wt_name :: string
  wt_exercises :: "template_exercise list"

record program =
  p_id :: int
  p_name :: string
  p_workouts :: "workout_template list"

text \<open>A logging set \<open>{weight, targetReps, reps, completed}\<close> and an exercise of a
  session or of a history record, \<open>{exerciseId, restTime, sets}\<close>. The exercises that
  \<open>finishWorkout\<close> writes into the history have no \<open>restTime\<close> property.\<close>

record logged_set =
  weight :: string
  targetReps :: string
  reps :: string
  completed :: bool

record logged_exercise =
  exerciseId :: int
  restTime :: "int option"
  sets :: "logged_set list"

datatype workout_type = ProgramWorkout | StandaloneWorkout | FreestyleWorkout

text \<open>\<open>state.activeWorkout\<close>. A session cloned from a history record by
  \<open>editHistoryWorkout\<close> has no \<open>type\<close> and carries the record's \<open>id\<close> and \<open>date\<close>
  along.\<close>

record active_workout =
  w_type :: "workout_type option"
  w_programId :: "int option"
  w_workoutIndex :: "nat option"
  w_standaloneWorkoutId :: "int option"
  w_week :: "int option"
  w_name :: string
  w_exercises :: "logged_exercise list"
  w_notes :: string
  w_historyId :: "int option"
  w_startTime :: "int option"
  w_id :: "int option"
  w_date :: "int option"

text \<open>An element of \<open>state.workoutHistory\<close>.\<close>

record history_record =
  r_id :: int
  r_date :: int
  r_programId :: "int option"
  r_workoutIndex :: "nat option"
  r_week :: "int option"
  r_name :: string
  r_exercises :: "logged_exercise list"
  r_notes :: string

text \<open>The callbacks that the script registers with \<open>setInterval\<close>.\<close>

datatype callback = RunRestTimerTick | UpdateWorkoutDurationDisplay

text \<open>
  The global state together with the browser's table of live intervals: \<open>intervals\<close>
  lists the handles that \<open>setInterval\<close> has returned and \<open>clearInterval\<close> has not yet
  cancelled, each with its callback, and \<open>nextHandle\<close> is the next handle the browser
  hands out.
\<close>

record app_state =
  exercises :: "exercise_def list"
  programs :: "program list"
  standaloneWorkouts :: "workout_template list"
  currentWeek :: int
  workoutHistory :: "history_record list"
  activeWorkout :: "active_workout option"
  workoutDurationInterval :: "nat option"
  workoutStartTime :: "int option"
  restTimerInterval :: "nat option"
  restTimerRemaining :: int
  restTimerTotal :: int
  intervals :: "(nat \<times> callback) list"
  nextHandle :: nat

text \<open>How a call ended: normally, with the alert of \<open>finishWorkout\<close>, by an early
  \<open>return\<close> (a declined \<open>confirm\<close>, a record or template that is not found), or with
  the \<open>TypeError\<close> of reading a property of \<open>undefined\<close> or \<open>null\<close>.\<close>

datatype outcome = Done | EmptySession | Returned | TypeError

section \<open>JavaScript primitives\<close>

text \<open>\<open>if (x)\<close> and \<open>x || d\<close> on a number that may be missing: \<open>undefined\<close>, \<open>null\<close>
  and \<open>0\<close> are falsy.\<close>

definition truthy :: "int option \<Rightarrow> bool" where
  "truthy v = (case v of None \<Rightarrow> False | Some n \<Rightarrow> n \<noteq> 0)"

text \<open>\<open>Array.prototype.findIndex\<close>, with \<open>None\<close> for \<open>-1\<close>.\<close>

fun findIndex :: "('a \<Rightarrow> bool) \<Rightarrow> 'a list \<Rightarrow> nat option" where
  "findIndex P [] = None"
| "findIndex P (x # xs) =
     (if P x then Some 0 else map_option Suc (findIndex P xs))"

definition setInterval :: "callback \<Rightarrow> app_state \<Rightarrow> nat \<times> app_state" where
  "setInterval cb st =
     (nextHandle st,
      st\<lparr>intervals := intervals st @ [(nextHandle st, cb)],
         nextHandle := Suc (nextHandle st)\<rparr>)"

definition clearInterval :: "nat option \<Rightarrow> app_state \<Rightarrow> app_state" where
  "clearInterval h st =
     (case h of
        None \<Rightarrow> st
      | Some k \<Rightarrow> st\<lparr>intervals := filter (\<lambda>p. fst p \<noteq> k) (intervals st)\<rparr>)"

section \<open>Workout duration timer\<close>

text \<open>\<open>startWorkoutTimer\<close> keeps the session's \<open>startTime\<close> when it has one and stamps
  it with the clock otherwise, then replaces the duration interval: it cancels the one
  it holds before it registers the next. It is called by \<open>openActiveWorkout\<close> only,
  always with a session in place; on a state without one the model does nothing.\<close>

definition startWorkoutTimer :: "int \<Rightarrow> app_state \<Rightarrow> app_state" where
  "startWorkoutTimer now st =
     (case activeWorkout st of
        None \<Rightarrow> st
      | Some w \<Rightarrow>
          let start = (if truthy (w_startTime w) then the (w_startTime w) else now);
              st1 = st\<lparr>workoutStartTime := Some start,
                       activeWorkout := Some (w\<lparr>w_startTime := Some start\<rparr>)\<rparr>;
              st2 = clearInterval (workoutDurationInterval st1) st1;
              (h, st3) = setInterval UpdateWorkoutDurationDisplay st2
          in st3\<lparr>workoutDurationInterval := Some h\<rparr>)"

definition stopWorkoutTimer :: "app_state \<Rightarrow> app_state" where
  "stopWorkoutTimer st =
     (clearInterval (workoutDurationInterval st) st)\<lparr>workoutDurationInterval := None\<rparr>"

section \<open>Finishing a workout\<close>

text \<open>The filter of \<open>finishWorkout\<close>: \<open>s.completed || (s.weight && s.reps)\<close>. A string is
  truthy when it is not empty.\<close>

definition qualifies :: "logged_set \<Rightarrow> bool" where
  "qualifies s = (completed s \<or> (weight s \<noteq> [] \<and> reps s \<noteq> []))"

definition completedExercises :: "logged_exercise list \<Rightarrow> logged_exercise list" where
  "completedExercises exs =
     filter (\<lambda>ex. length (sets ex) > 0)
       (map (\<lambda>ex. \<lparr>exerciseId = exerciseId ex, restTime = None,
                    sets = filter (\<lambda>s. qualifies s) (sets ex)\<rparr>) exs)"

text \<open>
  \<open>finishWorkout\<close>. \<open>now\<close> is the value of \<open>Date.now()\<close> and \<open>today\<close> the instant of
  \<open>new Date()\<close>, both read only on the branch that builds a new record. Reading
  \<open>state.activeWorkout.exercises\<close> without a session is a \<open>TypeError\<close>. The notes are a
  string, so \<open>state.activeWorkout.notes || ''\<close> is the notes. The outcome
  \<open>EmptySession\<close> stands for the alert "You haven't logged any sets!" and the
  \<open>return\<close> that follows it. \<open>renderHistory\<close> and \<open>renderTrainingTab\<close> run after the
  last write of the function.
\<close>

definition finishWorkout :: "int \<Rightarrow> int \<Rightarrow> app_state \<Rightarrow> outcome \<times> app_state" where
  "finishWorkout now today st =
     (case activeWorkout st of
        None \<Rightarrow> (TypeError, st)
      | Some w \<Rightarrow>
          let done = completedExercises (w_exercises w) in
          if length done = 0 then (EmptySession, st)
          else
            let hist = workoutHistory st;
                hist' =
                  (if truthy (w_historyId w) then
                     (case findIndex (\<lambda>r. r_id r = the (w_historyId w)) hist of
                        Some i \<Rightarrow> hist[i := (hist ! i)\<lparr>r_exercises := done, r_notes := w_notes w\<rparr>]
                      | None \<Rightarrow> hist)
                   else
                     hist @
                     [\<lparr>r_id = now, r_date = today,
                       r_programId = (if truthy (w_programId w) then w_programId w else None),
                       r_workoutIndex = w_workoutIndex w,
                       r_week = Some (if truthy (w_week w) then the (w_week w) else 1),
                       r_name = w_name w,
                       r_exercises = done,
                       r_notes = w_notes w\<rparr>])
            in (Done, stopWorkoutTimer (st\<lparr>workoutHistory := hist', activeWorkout := None\<rparr>)))"

section \<open>Last performance of an exercise\<close>

text \<open>
  \<open>Number(s.weight)\<close> is an argument of the model: a function from strings to an ordered
  type of numbers, with \<open>None\<close> for \<open>NaN\<close>. \<open>x > y\<close> is false as soon as one side is
  \<open>NaN\<close>.
\<close>

definition jsGreater :: "'n::linorder option \<Rightarrow> 'n option \<Rightarrow> bool" where
  "jsGreater x y = (case (x, y) of (Some a, Some b) \<Rightarrow> b < a | _ \<Rightarrow> False)"

datatype last_performance = Null | Performance string string | Throws

text \<open>
  \<open>getLastExercisePerformance\<close>. \<open>matches\<close> pairs the date of every record that has an
  entry for the exercise with the sets of the first such entry
  (\<open>workout.exercises.find\<close>). \<open>Array.prototype.sort\<close> is stable, and the comparator
  \<open>new Date(b.date) - new Date(a.date)\<close> orders by descending date. \<open>reduce\<close> runs over
  all sets with the first set as its initial value; with no set at all it returns
  \<open>undefined\<close>, and reading \<open>bestSet.weight\<close> throws.
\<close>

definition getLastExercisePerformance ::
  "(string \<Rightarrow> 'n::linorder option) \<Rightarrow> int \<Rightarrow> app_state \<Rightarrow> last_performance" where
  "getLastExercisePerformance Number i st =
     (let matches =
            List.map_filter
              (\<lambda>workout.
                 case find (\<lambda>e. exerciseId e = i) (r_exercises workout) of
                   Some ex \<Rightarrow> Some (r_date workout, sets ex)
                 | None \<Rightarrow> None)
              (workoutHistory st)
      in if length matches = 0 then Null
         else
           let last = hd (sort_key (\<lambda>m. - fst m) matches) in
           (case snd last of
              [] \<Rightarrow> Throws
            | s0 # _ \<Rightarrow>
                let bestSet =
                      foldl (\<lambda>max curr.
                               if jsGreater (Number (weight curr)) (Number (weight max))
                               then curr else max)
                        s0 (snd last)
                in Performance (weight bestSet) (reps bestSet)))"

section \<open>Rendering the session\<close>

text \<open>
  \<open>renderActiveExercises\<close> writes to the page only, but it calls
  \<open>getLastExercisePerformance\<close> for every exercise of the session, in order, and an
  exception of that call leaves the function that asked for the rendering at once. The
  model keeps exactly that: whether the rendering completes. Reading
  \<open>state.activeWorkout.exercises\<close> without a session is a \<open>TypeError\<close> as well.
\<close>

definition renderActiveExercises :: "(string \<Rightarrow> 'n::linorder option) \<Rightarrow> app_state \<Rightarrow> outcome" where
  "renderActiveExercises Number st =
     (case activeWorkout st of
        None \<Rightarrow> TypeError
      | Some w \<Rightarrow>
          if \<exists>exercise \<in> set (w_exercises w).
               getLastExercisePerformance Number (exerciseId exercise) st = Throws
          then TypeError else Done)"

section \<open>History\<close>

definition deleteHistoryWorkout :: "bool \<Rightarrow> int \<Rightarrow> app_state \<Rightarrow> app_state" where
  "deleteHistoryWorkout confirmed i st =
     (if confirmed
      then st\<lparr>workoutHistory := filter (\<lambda>w. r_id w \<noteq> i) (workoutHistory st)\<rparr>
      else st)"

text \<open>\<open>openActiveWorkout\<close> fills the modal, renders the session and then starts the
  duration timer; when the rendering throws, the timer is not started.\<close>

definition openActiveWorkout ::
  "(string \<Rightarrow> 'n::linorder option) \<Rightarrow> int \<Rightarrow> app_state \<Rightarrow> outcome \<times> app_state" where
  "openActiveWorkout Number now st =
     (if renderActiveExercises Number st = Done
      then (Done, startWorkoutTimer now st)
      else (TypeError, st))"

text \<open>\<open>editHistoryWorkout\<close>: the session is \<open>deepClone(record)\<close>, that is every property
  of the record by value, with \<open>historyId\<close> added.\<close>

definition editHistoryWorkout ::
  "(string \<Rightarrow> 'n::linorder option) \<Rightarrow> int \<Rightarrow> int \<Rightarrow> app_state \<Rightarrow> outcome \<times> app_state" where
  "editHistoryWorkout Number now i st =
     (case find (\<lambda>w. r_id w = i) (workoutHistory st) of
        None \<Rightarrow> (Returned, st)
      | Some record \<Rightarrow>
          openActiveWorkout Number now
            (st\<lparr>activeWorkout := Some
               \<lparr>w_type = None,
                w_programId = r_programId record,
                w_workoutIndex = r_workoutIndex record,
                w_standaloneWorkoutId = None,
                w_week = r_week record,
                w_name = r_name record,
                w_exercises = r_exercises record,
                w_notes = r_notes record,
                w_historyId = Some i,
                w_startTime = None,
                w_id = Some (r_id record),
                w_date = Some (r_date record)\<rparr>\<rparr>))"

section \<open>Starting a workout from a template\<close>

text \<open>\<open>getRestTimeForExercise\<close>: \<open>(ex && ex.restTime) ? parseInt(ex.restTime) : 90\<close>.
  \<open>parseInt\<close> of an integer is that integer.\<close>

definition getRestTimeForExercise :: "exercise_def list \<Rightarrow> int \<Rightarrow> int" where
  "getRestTimeForExercise catalog i =
     (case find (\<lambda>e. e_id e = i) catalog of
        None \<Rightarrow> 90
      | Some ex \<Rightarrow> if e_restTime ex \<noteq> 0 then e_restTime ex else 90)"

text \<open>The \<open>template.exercises.map(...)\<close> shared by \<open>startProgramWorkout\<close> and
  \<open>startStandaloneWorkout\<close>. \<open>s.reps || ''\<close> is \<open>s.reps\<close> for a string, and the
  \<open>sets\<close> of a template entry is always an array.\<close>

definition sessionExercises :: "exercise_def list \<Rightarrow> workout_template \<Rightarrow> logged_exercise list" where
  "sessionExercises catalog template =
     map (\<lambda>ex.
           \<lparr>exerciseId = t_exerciseId ex,
            restTime = Some (case t_restTime ex of
                               Some r \<Rightarrow> r
                             | None \<Rightarrow> getRestTimeForExercise catalog (t_exerciseId ex)),
            sets = map (\<lambda>s. \<lparr>weight = [], targetReps = ts_reps s, reps = [],
                               completed = False\<rparr>) (t_sets ex)\<rparr>)
       (wt_exercises template)"

text \<open>\<open>startProgramWorkout\<close>. \<open>confirmed\<close> is the answer to the \<open>confirm\<close> dialog, asked
  only when a session exists. A program that is not found, or an index past the
  program's workouts, ends in a \<open>TypeError\<close> before anything is written. The session
  is stored before \<open>openActiveWorkout\<close> is called.\<close>

definition startProgramWorkout ::
  "(string \<Rightarrow> 'n::linorder option) \<Rightarrow> bool \<Rightarrow> int \<Rightarrow> nat \<Rightarrow> int \<Rightarrow> app_state
     \<Rightarrow> outcome \<times> app_state" where
  "startProgramWorkout Number confirmed programId index now st =
     (if activeWorkout st \<noteq> None \<and> \<not> confirmed then (Returned, st)
      else
        (case find (\<lambda>p. p_id p = programId) (programs st) of
           None \<Rightarrow> (TypeError, st)
         | Some program \<Rightarrow>
             if index < length (p_workouts program) then
               let template = p_workouts program ! index in
               openActiveWorkout Number now
                 (st\<lparr>activeWorkout := Some
                    \<lparr>w_type = Some ProgramWorkout,
                     w_programId = Some (p_id program),
                     w_workoutIndex = Some index,
                     w_standaloneWorkoutId = None,
                     w_week = Some (if currentWeek st \<noteq> 0 then currentWeek st else 1),
                     w_name = wt_name template,
                     w_exercises = sessionExercises (exercises st) template,
                     w_notes = [],
                     w_historyId = None,
                     w_startTime = None,
                     w_id = None,
                     w_date = None\<rparr>\<rparr>)
             else (TypeError, st)))"

definition startStandaloneWorkout ::
  "(string \<Rightarrow> 'n::linorder option) \<Rightarrow> bool \<Rightarrow> int \<Rightarrow> int \<Rightarrow> app_state
     \<Rightarrow> outcome \<times> app_state" where
  "startStandaloneWorkout Number confirmed i now st =
     (if activeWorkout st \<noteq> None \<and> \<not> confirmed then (Returned, st)
      else
        (case find (\<lambda>w. wt_id w = Some i) (standaloneWorkouts st) of
           None \<Rightarrow> (Returned, st)
         | Some template \<Rightarrow>
             openActiveWorkout Number now
               (st\<lparr>activeWorkout := Some
                  \<lparr>w_type = Some StandaloneWorkout,
                   w_programId = None,
                   w_workoutIndex = None,
                   w_standaloneWorkoutId = Some i,
                   w_week = None,
                   w_name = wt_name template,
                   w_exercises = sessionExercises (exercises st) template,
                   w_notes = [],
                   w_historyId = None,
                   w_startTime = None,
                   w_id = None,
                   w_date = None\<rparr>\<rparr>)))"

section \<open>Rest timer\<close>

definition startRestTimer :: "int \<Rightarrow> app_state \<Rightarrow> app_state" where
  "startRestTimer duration st =
     (let st1 = st\<lparr>restTimerTotal := duration, restTimerRemaining := duration\<rparr>;
          (h, st2) = setInterval RunRestTimerTick st1
      in st2\<lparr>restTimerInterval := Some h\<rparr>)"

definition skipRestTimer :: "app_state \<Rightarrow> app_state" where
  "skipRestTimer st =
     (clearInterval (restTimerInterval st) st)\<lparr>restTimerInterval := None\<rparr>"

definition runRestTimerTick :: "app_state \<Rightarrow> app_state" where
  "runRestTimerTick st =
     (let st1 = st\<lparr>restTimerRemaining := restTimerRemaining st - 1\<rparr>
      in if restTimerRemaining st1 \<le> 0 then skipRestTimer st1 else st1)"

definition adjustRestTimer :: "int \<Rightarrow> app_state \<Rightarrow> app_state" where
  "adjustRestTimer delta st =
     (let remaining = max 1 (restTimerRemaining st + delta)
      in st\<lparr>restTimerRemaining := remaining,
            restTimerTotal := max (restTimerTotal st) remaining\<rparr>)"

text \<open>
  One second of the browser's clock: every interval that is live at the start of the
  second fires once, in the order of registration, unless a callback that ran before it
  in the same second has cancelled it.
\<close>

definition fire :: "nat \<times> callback \<Rightarrow> app_state \<Rightarrow> app_state" where
  "fire p st =
     (if p \<in> set (intervals st)
      then (case snd p of
              RunRestTimerTick \<Rightarrow> runRestTimerTick st
            | UpdateWorkoutDurationDisplay \<Rightarrow> st)
      else st)"

definition oneSecond :: "app_state \<Rightarrow> app_state" where
  "oneSecond st = fold fire (intervals st) st"

text \<open>The number of live countdown tasks.\<close>

definition countdowns :: "app_state \<Rightarrow> nat" where
  "countdowns st = length (filter (\<lambda>p. snd p = RunRestTimerTick) (intervals st))"

section \<open>Logging sets\<close>

datatype set_field = Weight | Reps

text \<open>\<open>updateActiveSet\<close> writes the \<open>weight\<close> or the \<open>reps\<close> of one set; an index
  past the session's exercises or past the exercise's sets is a \<open>TypeError\<close>.\<close>

definition updateActiveSet ::
  "nat \<Rightarrow> nat \<Rightarrow> set_field \<Rightarrow> string \<Rightarrow> app_state \<Rightarrow> outcome \<times> app_state" where
  "updateActiveSet exIndex setIndex field v st =
     (case activeWorkout st of
        None \<Rightarrow> (TypeError, st)
      | Some w \<Rightarrow>
          if exIndex < length (w_exercises w) then
            let exercise = w_exercises w ! exIndex in
            if setIndex < length (sets exercise) then
              let s = sets exercise ! setIndex;
                  s' = (case field of Weight \<Rightarrow> s\<lparr>weight := v\<rparr> | Reps \<Rightarrow> s\<lparr>reps := v\<rparr>)
              in (Done,
                  st\<lparr>activeWorkout := Some
                     (w\<lparr>w_exercises := (w_exercises w)
                          [exIndex := exercise\<lparr>sets := (sets exercise)[setIndex := s']\<rparr>]\<rparr>)\<rparr>)
            else (TypeError, st)
          else (TypeError, st))"

text \<open>\<open>toggleSetComplete\<close> flips the mark, renders the session, and only then looks at
  the transition; when the rendering throws, the mark stays flipped and no timer is
  started. The duration is resolved as
  \<open>exercise.restTime !== undefined ? exercise.restTime :
     (exerciseData ? exerciseData.restTime : 90)\<close>.\<close>

definition toggleSetComplete ::
  "(string \<Rightarrow> 'n::linorder option) \<Rightarrow> nat \<Rightarrow> nat \<Rightarrow> app_state \<Rightarrow> outcome \<times> app_state" where
  "toggleSetComplete Number exIndex setIndex st =
     (case activeWorkout st of
        None \<Rightarrow> (TypeError, st)
      | Some w \<Rightarrow>
          if exIndex < length (w_exercises w) then
            let exercise = w_exercises w ! exIndex in
            if setIndex < length (sets exercise) then
              let s = sets exercise ! setIndex;
                  wasCompleted = completed s;
                  s' = s\<lparr>completed := \<not> completed s\<rparr>;
                  st1 = st\<lparr>activeWorkout := Some
                          (w\<lparr>w_exercises := (w_exercises w)
                               [exIndex := exercise\<lparr>sets := (sets exercise)[setIndex := s']\<rparr>]\<rparr>)\<rparr>
              in if renderActiveExercises Number st1 \<noteq> Done then (TypeError, st1)
                 else if \<not> wasCompleted \<and> completed s' then
                   let exerciseData = find (\<lambda>e. e_id e = exerciseId exercise) (exercises st1);
                       duration =
                         (case restTime exercise of
                            Some r \<Rightarrow> r
                          | None \<Rightarrow> (case exerciseData of
                                        Some d \<Rightarrow> e_restTime d
                                      | None \<Rightarrow> 90))
                   in (Done, startRestTimer duration st1)
                 else (Done, st1)
            else (TypeError, st)
          else (TypeError, st))"

section \<open>Templates and sessions as objects in a store\<close>

text \<open>
  Whether a write to the session can reach a template depends on which objects the two
  share, which the record model above cannot express: there every value is a copy. For
  that question the objects live in a store, a list of cells addressed by position, and
  a property that holds an object or an array holds its reference. A new object gets
  the next free address. The cells are the objects that \<open>startProgramWorkout\<close> reads and
  builds: a template's target set \<open>{reps}\<close>, a template's exercise entry, a logging
  set, a session exercise, and an array of references.
\<close>

type_synonym ref = nat

datatype cell =
    TargetSet string
  | TemplateEntry int "int option" ref
  | LoggingSet string string string bool
  | SessionExercise int "int option" ref
  | Array "ref list"

type_synonym store = "cell list"

text \<open>\<open>ex.sets.map(s => ({weight: '', targetReps: s.reps || '', reps: '', completed:
  false}))\<close>: one new logging set per target set, in order. \<open>None\<close> when a reference does
  not lead to a target set.\<close>

fun newSets :: "ref list \<Rightarrow> store \<Rightarrow> (ref list \<times> store) option" where
  "newSets [] h = Some ([], h)"
| "newSets (a # as) h =
     (if a < length h then
        (case h ! a of
           TargetSet r \<Rightarrow>
             (case newSets as (h @ [LoggingSet [] r [] False]) of
                Some (rs, h') \<Rightarrow> Some (length h # rs, h')
              | None \<Rightarrow> None)
         | _ \<Rightarrow> None)
      else None)"

text \<open>\<open>template.exercises.map(ex => ({exerciseId: ex.exerciseId, restTime: ..., sets:
  ...}))\<close>: for each entry the new sets, the array that holds them, and the new session
  exercise.\<close>

fun newExercises :: "exercise_def list \<Rightarrow> ref list \<Rightarrow> store \<Rightarrow> (ref list \<times> store) option" where
  "newExercises catalog [] h = Some ([], h)"
| "newExercises catalog (a # as) h =
     (if a < length h then
        (case h ! a of
           TemplateEntry i rest setsRef \<Rightarrow>
             (if setsRef < length h then
                (case h ! setsRef of
                   Array targets \<Rightarrow>
                     (case newSets targets h of
                        Some (rs, h1) \<Rightarrow>
                          (let h2 = h1 @ [Array rs];
                               h3 = h2 @ [SessionExercise i
                                      (Some (case rest of
                                               Some r \<Rightarrow> r
                                             | None \<Rightarrow> getRestTimeForExercise catalog i))
                                      (length h1)]
                           in (case newExercises catalog as h3 of
                                 Some (xs, h') \<Rightarrow> Some (length h2 # xs, h')
                               | None \<Rightarrow> None))
                      | None \<Rightarrow> None)
                 | _ \<Rightarrow> None)
              else None)
         | _ \<Rightarrow> None)
      else None)"

text \<open>The whole \<open>const sessionExercises = template.exercises.map(...)\<close>, from the
  reference of \<open>template.exercises\<close> to the reference of the new array.\<close>

definition sessionExercisesIn :: "exercise_def list \<Rightarrow> ref \<Rightarrow> store \<Rightarrow> (ref \<times> store) option" where
  "sessionExercisesIn catalog t h =
     (if t < length h then
        (case h ! t of
           Array entries \<Rightarrow>
             (case newExercises catalog entries h of
                Some (xs, h') \<Rightarrow> Some (length h', h' @ [Array xs])
              | None \<Rightarrow> None)
         | _ \<Rightarrow> None)
      else None)"

text \<open>The set that \<open>state.activeWorkout.exercises[exIndex].sets[setIndex]\<close> refers to,
  \<open>None\<close> for the \<open>TypeError\<close> of an index out of range.\<close>

definition setAt :: "ref \<Rightarrow> nat \<Rightarrow> nat \<Rightarrow> store \<Rightarrow> ref option" where
  "setAt session exIndex setIndex h =
     (if session < length h then
        (case h ! session of
           Array xs \<Rightarrow>
             (if exIndex < length xs \<and> xs ! exIndex < length h then
                (case h ! (xs ! exIndex) of
                   SessionExercise i rest setsRef \<Rightarrow>
                     (if setsRef < length h then
                        (case h ! setsRef of
                           Array ss \<Rightarrow>
                             (if setIndex < length ss \<and> ss ! setIndex < length h
                              then Some (ss ! setIndex) else None)
                         | _ \<Rightarrow> None)
                      else None)
                 | _ \<Rightarrow> None)
              else None)
         | _ \<Rightarrow> None)
      else None)"

text \<open>The writes of \<open>updateActiveSet\<close> and \<open>toggleSetComplete\<close> to the set object.\<close>

datatype mutation = UpdateActiveSet nat nat set_field string | ToggleSetComplete nat nat

fun mutate :: "ref \<Rightarrow> mutation \<Rightarrow> store \<Rightarrow> store option" where
  "mutate session (UpdateActiveSet exIndex setIndex field v) h =
     (case setAt session exIndex setIndex h of
        Some a \<Rightarrow>
          (case h ! a of
             LoggingSet w t r c \<Rightarrow>
               Some (h[a := (case field of
                               Weight \<Rightarrow> LoggingSet v t r c
                             | Reps \<Rightarrow> LoggingSet w t v c)])
           | _ \<Rightarrow> None)
      | None \<Rightarrow> None)"
| "mutate session (ToggleSetComplete exIndex setIndex) h =
     (case setAt session exIndex setIndex h of
        Some a \<Rightarrow>
          (case h ! a of
             LoggingSet w t r c \<Rightarrow> Some (h[a := LoggingSet w t r (\<not> c)])
           | _ \<Rightarrow> None)
      | None \<Rightarrow> None)"

fun mutations :: "ref \<Rightarrow> mutation list \<Rightarrow> store \<Rightarrow> store option" where
  "mutations session [] h = Some h"
| "mutations session (m # ms) h =
     (case mutate session m h of
        Some h' \<Rightarrow> mutations session ms h'
      | None \<Rightarrow> None)"

text \<open>Reading a template's entries, and a session's exercises, back from the store as
  the values of the record model.\<close>

fun readTargets :: "ref list \<Rightarrow> store \<Rightarrow> template_set list option" where
  "readTargets [] h = Some []"
| "readTargets (a # as) h =
     (if a < length h then
        (case h ! a of
           TargetSet r \<Rightarrow> map_option (\<lambda>ts. \<lparr>ts_reps = r\<rparr> # ts) (readTargets as h)
         | _ \<Rightarrow> None)
      else None)"

fun readEntries :: "ref list \<Rightarrow> store \<Rightarrow> template_exercise list option" where
  "readEntries [] h = Some []"
| "readEntries (a # as) h =
     (if a < length h then
        (case h ! a of
           TemplateEntry i rest setsRef \<Rightarrow>
             (if setsRef < length h then
                (case h ! setsRef of
                   Array targets \<Rightarrow>
                     (case readTargets targets h of
                        Some ts \<Rightarrow>
                          map_option (\<lambda>es. \<lparr>t_exerciseId = i, t_restTime = rest, t_sets = ts\<rparr> # es)
                            (readEntries as h)
                      | None \<Rightarrow> None)
                 | _ \<Rightarrow> None)
              else None)
         | _ \<Rightarrow> None)
      else None)"

definition readTemplate :: "ref \<Rightarrow> store \<Rightarrow> template_exercise list option" where
  "readTemplate t h =
     (if t < length h then
        (case h ! t of Array entries \<Rightarrow> readEntries entries h | _ \<Rightarrow> None)
      else None)"

fun readSets :: "ref list \<Rightarrow> store \<Rightarrow> logged_set list option" where
  "readSets [] h = Some []"
| "readSets (a # as) h =
     (if a < length h then
        (case h ! a of
           LoggingSet w t r c \<Rightarrow>
             map_option (\<lambda>ss. \<lparr>weight = w, targetReps = t, reps = r, completed = c\<rparr> # ss)
               (readSets as h)
         | _ \<Rightarrow> None)
      else None)"

fun readExercises :: "ref list \<Rightarrow> store \<Rightarrow> logged_exercise list option" where
  "readExercises [] h = Some []"
| "readExercises (a # as) h =
     (if a < length h then
        (case h ! a of
           SessionExercise i rest setsRef \<Rightarrow>
             (if setsRef < length h then
                (case h ! setsRef of
                   Array ss \<Rightarrow>
                     (case readSets ss h of
                        Some sets' \<Rightarrow>
                          map_option (\<lambda>es. \<lparr>exerciseId = i, restTime = rest, sets = sets'\<rparr> # es)
                            (readExercises as h)
                      | None \<Rightarrow> None)
                 | _ \<Rightarrow> None)
              else None)
         | _ \<Rightarrow> None)
      else None)"

definition readSession :: "ref \<Rightarrow> store \<Rightarrow> logged_exercise list option" where
  "readSession s h =
     (if s < length h then
        (case h ! s of Array xs \<Rightarrow> readExercises xs h | _ \<Rightarrow> None)
      else None)"

text \<open>The shape of a session all of whose objects were allocated at or after address
  \<open>n\<close>: the array of its exercises, each exercise, the array of its sets and the sets
  themselves.\<close>

definition fresh_exercise :: "nat \<Rightarrow> store \<Rightarrow> ref \<Rightarrow> bool" where
  "fresh_exercise n h x \<longleftrightarrow>
     n \<le> x \<and> x < length h \<and>
     (\<exists>i rest sa ss. h ! x = SessionExercise i rest sa \<and> n \<le> sa \<and> sa < length h
        \<and> h ! sa = Array ss \<and> (\<forall>s \<in> set ss. n \<le> s \<and> s < length h))"

definition fresh_session :: "nat \<Rightarrow> store \<Rightarrow> ref \<Rightarrow> bool" where
  "fresh_session n h s \<longleftrightarrow>
     n \<le> s \<and> s < length h \<and> (\<exists>xs. h ! s = Array xs \<and> (\<forall>x \<in> set xs. fresh_exercise n h x))"

section \<open>Example data\<close>

text \<open>\<open>Number\<close> on the strings of decimal digits, for the examples: the empty string
  is 0, and any other character gives \<open>NaN\<close>.\<close>

fun digits :: "nat \<Rightarrow> string \<Rightarrow> nat option" where
  "digits acc [] = Some acc"
| "digits acc (c # cs) =
     (if 48 \<le> (of_char c :: nat) \<and> (of_char c :: nat) \<le> 57
      then digits (10 * acc + (of_char c - 48)) cs
      else None)"

definition NumberOfDigits :: "string \<Rightarrow> nat option" where
  "NumberOfDigits s = digits 0 s"

text \<open>The catalog entry, the program and the states used to run the operations on
  concrete inputs: a program whose workout "Push Day" has one exercise with three
  target sets of 8-12 repetitions and a rest of 120 seconds.\<close>

definition benchPress :: exercise_def where
  "benchPress = \<lparr>e_id = 1, e_name = ''Barbell Bench Press'', e_category = ''Chest'',
                  e_restTime = 120\<rparr>"

definition pushDay :: workout_template where
  "pushDay =
     \<lparr>wt_id = None, wt_name = ''Push Day'',
      wt_exercises =
        [\<lparr>t_exerciseId = 1, t_restTime = Some 120,
          t_sets = [\<lparr>ts_reps = ''8-12''\<rparr>, \<lparr>ts_reps = ''8-12''\<rparr>, \<lparr>ts_reps = ''8-12''\<rparr>]\<rparr>]\<rparr>"

definition initialState :: app_state where
  "initialState =
     \<lparr>exercises = [benchPress],
      programs = [\<lparr>p_id = 7, p_name = ''Strength'', p_workouts = [pushDay]\<rparr>],
      standaloneWorkouts = [pushDay\<lparr>wt_id := Some 9\<rparr>],
      currentWeek = 1,
      workoutHistory = [],
      activeWorkout = None,
      workoutDurationInterval = None,
      workoutStartTime = None,
      restTimerInterval = None,
      restTimerRemaining = 0,
      restTimerTotal = 0,
      intervals = [],
      nextHandle = 1\<rparr>"

text \<open>A session as \<open>startStandaloneWorkout\<close> builds it (no program, no week, no
  history id), with the given exercises.\<close>

definition standaloneSession :: "logged_exercise list \<Rightarrow> active_workout" where
  "standaloneSession exs =
     \<lparr>w_type = Some StandaloneWorkout, w_programId = None, w_workoutIndex = None,
      w_standaloneWorkoutId = Some 9, w_week = None, w_name = ''Push Day'',
      w_exercises = exs, w_notes = [], w_historyId = None, w_startTime = Some 1000,
      w_id = None, w_date = None\<rparr>"

definition emptySet :: logged_set where
  "emptySet = \<lparr>weight = [], targetReps = ''8-12'', reps = [], completed = False\<rparr>"

definition loggedSet :: logged_set where
  "loggedSet = \<lparr>weight = ''135'', targetReps = ''8-12'', reps = ''10'', completed = True\<rparr>"

text \<open>A history record with id 42, and the state reached by resuming it with
  \<open>editHistoryWorkout\<close> and changing the reps of its set to 12.\<close>

definition record42 :: history_record where
  "record42 =
     \<lparr>r_id = 42, r_date = 500, r_programId = Some 7, r_workoutIndex = Some 0,
      r_week = Some 1, r_name = ''Push Day'',
      r_exercises = [\<lparr>exerciseId = 1, restTime = None, sets = [loggedSet]\<rparr>],
      r_notes = ''felt strong''\<rparr>"

definition resumedState :: app_state where
  "resumedState =
     snd (updateActiveSet 0 0 Reps ''12''
       (snd (editHistoryWorkout NumberOfDigits 1000 42 (initialState\<lparr>workoutHistory := [record42]\<rparr>))))"

text \<open>The session that \<open>startProgramWorkout\<close> builds from "Push Day" in the initial
  state, and the same after the first set was logged with 135 x 10 and ticked.\<close>

definition pushDayStarted :: app_state where
  "pushDayStarted = snd (startProgramWorkout NumberOfDigits False 7 0 1000 initialState)"

definition firstSetDone :: app_state where
  "firstSetDone =
     snd (toggleSetComplete NumberOfDigits 0 0
       (snd (updateActiveSet 0 0 Reps ''10''
         (snd (updateActiveSet 0 0 Weight ''135'' pushDayStarted)))))"

text \<open>A later record of the same exercise with three sets, two of them at the top
  weight, and a history holding both records; and a record that lists the exercise
  twice, as a session does when the exercise was added twice.\<close>

definition record43 :: history_record where
  "record43 =
     \<lparr>r_id = 43, r_date = 900, r_programId = Some 7, r_workoutIndex = Some 0,
      r_week = Some 2, r_name = ''Push Day'',
      r_exercises =
        [\<lparr>exerciseId = 1, restTime = None,
          sets = [\<lparr>weight = ''100'', targetReps = ''8-12'', reps = ''8'', completed = True\<rparr>,
                  \<lparr>weight = ''140'', targetReps = ''8-12'', reps = ''5'', completed = True\<rparr>,
                  \<lparr>weight = ''140'', targetReps = ''8-12'', reps = ''3'', completed = True\<rparr>]\<rparr>],
      r_notes = []\<rparr>"

definition twoRecords :: app_state where
  "twoRecords = initialState\<lparr>workoutHistory := [record42, record43]\<rparr>"

definition twiceListed :: history_record where
  "twiceListed =
     \<lparr>r_id = 44, r_date = 950, r_programId = None, r_workoutIndex = None,
      r_week = Some 1, r_name = ''Quick Workout'',
      r_exercises =
        [\<lparr>exerciseId = 1, restTime = None,
          sets = [\<lparr>weight = ''100'', targetReps = [], reps = ''5'', completed = True\<rparr>]\<rparr>,
         \<lparr>exerciseId = 1, restTime = None,
          sets = [\<lparr>weight = ''200'', targetReps = [], reps = ''3'', completed = True\<rparr>]\<rparr>],
      r_notes = []\<rparr>"

text \<open>"Push Day" in a store: three target sets, their array, the entry, and the array
  \<open>template.exercises\<close> at address 5.\<close>

definition pushDayStore :: store where
  "pushDayStore =
     [TargetSet ''8-12'', TargetSet ''8-12'', TargetSet ''8-12'', Array [0, 1, 2],
      TemplateEntry 1 (Some 120) 3, Array [4]]"

text \<open>The store after the session of "Push Day" was built (its exercises are the array at
  address 11), and after the first set was logged with 135 x 10 and ticked.\<close>

definition pushDaySession :: store where
  "pushDaySession =
     pushDayStore @
     [LoggingSet [] ''8-12'' [] False, LoggingSet [] ''8-12'' [] False,
      LoggingSet [] ''8-12'' [] False, Array [6, 7, 8],
      SessionExercise 1 (Some 120) 9, Array [10]]"

definition pushDayLogged :: store where
  "pushDayLogged =
     pushDayStore @
     [LoggingSet ''135'' ''8-12'' ''10'' True, LoggingSet [] ''8-12'' [] False,
      LoggingSet [] ''8-12'' [] False, Array [6, 7, 8],
      SessionExercise 1 (Some 120) 9, Array [10]]"

section \<open>Facts about the filter of finishWorkout\<close>

lemma completedExercises_alt:
  "completedExercises exs =
     map (\<lambda>ex. \<lparr>exerciseId = exerciseId ex, restTime = None,
                  sets = filter (\<lambda>s. completed s \<or> (weight s \<noteq> [] \<and> reps s \<noteq> [])) (sets ex)\<rparr>)
       (filter (\<lambda>ex. \<exists>s \<in> set (sets ex). completed s \<or> (weight s \<noteq> [] \<and> reps s \<noteq> [])) exs)"
  unfolding completedExercises_def qualifies_def
  by (induction exs) (auto simp: filter_empty_conv)

lemma completedExercises_nonempty:
  assumes "ex \<in> set exs" and "s \<in> set (sets ex)" and "qualifies s"
  shows "completedExercises exs \<noteq> []"
proof -
  have "filter (\<lambda>s. qualifies s) (sets ex) \<noteq> []"
    using assms(2,3) by (auto simp: filter_empty_conv)
  then show ?thesis
    using assms(1) unfolding completedExercises_def
    by (auto simp: filter_empty_conv intro!: bexI[of _ ex])
qed

lemma stopWorkoutTimer_fields [simp]:
  "workoutHistory (stopWorkoutTimer st) = workoutHistory st"
  "activeWorkout (stopWorkoutTimer st) = activeWorkout st"
  by (simp_all add: stopWorkoutTimer_def clearInterval_def split: option.splits)

section \<open>Rendering completes when every entry of the history has a set\<close>

lemma find_None_set: "find P xs = None \<longleftrightarrow> (\<forall>x \<in> set xs. \<not> P x)"
  by (induction xs) auto

lemma sort_key_not_Nil: "xs \<noteq> [] \<Longrightarrow> sort_key f xs \<noteq> []"
  by (metis length_sort length_0_conv)

lemma hd_sort_key_in_set: "xs \<noteq> [] \<Longrightarrow> hd (sort_key f xs) \<in> set xs"
  using hd_in_set[OF sort_key_not_Nil, of xs f] by simp

lemma find_Some_set: "find P xs = Some x \<Longrightarrow> x \<in> set xs \<and> P x"
  by (induction xs) (auto split: if_splits)

lemma matches_sets:
  assumes "m \<in> set (List.map_filter
           (\<lambda>workout. case find (\<lambda>e. exerciseId e = i) (r_exercises workout) of
                         Some ex \<Rightarrow> Some (r_date workout, sets ex)
                       | None \<Rightarrow> None) hist)"
  shows "\<exists>x \<in> set hist. \<exists>e \<in> set (r_exercises x). snd m = sets e"
proof -
  from assms obtain x e where "x \<in> set hist"
      "find (\<lambda>e. exerciseId e = i) (r_exercises x) = Some e" "m = (r_date x, sets e)"
    by (auto simp: List.map_filter_def split: option.splits)
  then show ?thesis using find_Some_set[of "\<lambda>e. exerciseId e = i" "r_exercises x" e] by auto
qed

text \<open>\<open>finishWorkout\<close> writes no exercise without a set, so every entry of a history
  that it has written has one; on such a history \<open>getLastExercisePerformance\<close> does not
  throw and the rendering completes.\<close>

lemma completedExercises_sets: "e \<in> set (completedExercises exs) \<Longrightarrow> sets e \<noteq> []"
  by (auto simp: completedExercises_def)

lemma finishWorkout_keeps_entries_with_sets:
  assumes "\<forall>r \<in> set (workoutHistory st). \<forall>e \<in> set (r_exercises r). sets e \<noteq> []"
  shows "\<forall>r \<in> set (workoutHistory (snd (finishWorkout now today st))).
           \<forall>e \<in> set (r_exercises r). sets e \<noteq> []"
proof (cases "activeWorkout st")
  case None
  then show ?thesis using assms by (simp add: finishWorkout_def)
next
  case (Some w)
  let ?done = "completedExercises (w_exercises w)"
  have upd: "\<forall>r \<in> set (hist[i := (hist ! i)\<lparr>r_exercises := ?done, r_notes := n\<rparr>]).
               \<forall>e \<in> set (r_exercises r). sets e \<noteq> []"
    if "\<forall>r \<in> set hist. \<forall>e \<in> set (r_exercises r). sets e \<noteq> []" for hist i n
  proof (intro ballI)
    fix r e
    assume r: "r \<in> set (hist[i := (hist ! i)\<lparr>r_exercises := ?done, r_notes := n\<rparr>])"
      and e: "e \<in> set (r_exercises r)"
    from r have "r = (hist ! i)\<lparr>r_exercises := ?done, r_notes := n\<rparr> \<or> r \<in> set hist"
      by (auto dest: set_update_subset_insert[THEN subsetD])
    then show "sets e \<noteq> []"
      using e that completedExercises_sets[of e "w_exercises w"] by auto
  qed
  show ?thesis
    using Some assms upd[OF assms] completedExercises_sets[of _ "w_exercises w"]
    by (auto simp: finishWorkout_def Let_def split: option.splits)
qed

lemma getLastExercisePerformance_not_Throws:
  assumes "\<forall>r \<in> set (workoutHistory st). \<forall>e \<in> set (r_exercises r). sets e \<noteq> []"
  shows "getLastExercisePerformance Number i st \<noteq> Throws"
proof -
  let ?F = "\<lambda>workout. case find (\<lambda>e. exerciseId e = i) (r_exercises workout) of
                         Some ex \<Rightarrow> Some (r_date workout, sets ex)
                       | None \<Rightarrow> None"
  let ?M = "List.map_filter ?F (workoutHistory st)"
  show ?thesis
  proof (cases "?M = []")
    case True
    then show ?thesis by (simp add: getLastExercisePerformance_def)
  next
    case False
    then have "hd (sort_key (\<lambda>m. - fst m) ?M) \<in> set ?M"
      by (rule hd_sort_key_in_set)
    from matches_sets[OF this] obtain x e where
      "x \<in> set (workoutHistory st)" "e \<in> set (r_exercises x)"
      "snd (hd (sort_key (\<lambda>m. - fst m) ?M)) = sets e"
      by blast
    with assms have "snd (hd (sort_key (\<lambda>m. - fst m) ?M)) \<noteq> []"
      by simp
    then show ?thesis
      using False by (simp add: getLastExercisePerformance_def Let_def split: list.splits)
  qed
qed

lemma renderActiveExercises_Done:
  assumes "activeWorkout st \<noteq> None"
    and "\<forall>r \<in> set (workoutHistory st). \<forall>e \<in> set (r_exercises r). sets e \<noteq> []"
  shows "renderActiveExercises Number st = Done"
proof -
  have "getLastExercisePerformance Number i st \<noteq> Throws" for i
    by (rule getLastExercisePerformance_not_Throws[OF assms(2)])
  then show ?thesis
    using assms(1) by (auto simp: renderActiveExercises_def)
qed

lemma openActiveWorkout_cases:
  "openActiveWorkout Number now st = (TypeError, st)
   \<or> openActiveWorkout Number now st = (Done, startWorkoutTimer now st)"
  by (simp add: openActiveWorkout_def)

section \<open>Finishing a session that is not an edit of a record\<close>

text \<open>
  Claim C1, as the code has it. For a session whose \<open>historyId\<close> is unset (\<open>undefined\<close>,
  \<open>null\<close> or \<open>0\<close>) and that has a qualifying set (completed, or with both weight and
  reps non-empty), \<open>finishWorkout\<close> succeeds, clears the session and appends exactly one
  record to the history. The record's id and date are the clock readings of the call;
  it carries the session's \<open>workoutIndex\<close>, \<open>name\<close> and \<open>notes\<close>, the session's
  \<open>programId\<close> (\<open>null\<close> when that is unset or \<open>0\<close>), and the session's \<open>week\<close>, with
  \<open>1\<close> in its place when the session has no week (or week \<open>0\<close>). Its exercises are, in
  order, the session's exercises that have a qualifying set, each with exactly its
  qualifying sets in order.
\<close>

theorem finishWorkout_appends_record:
  assumes "activeWorkout st = Some w"
    and "\<not> truthy (w_historyId w)"
    and "ex \<in> set (w_exercises w)" and "s \<in> set (sets ex)"
    and "completed s \<or> (weight s \<noteq> [] \<and> reps s \<noteq> [])"
  shows "fst (finishWorkout now today st) = Done
    \<and> activeWorkout (snd (finishWorkout now today st)) = None
    \<and> workoutHistory (snd (finishWorkout now today st)) =
        workoutHistory st @
        [\<lparr>r_id = now, r_date = today,
          r_programId = (case w_programId w of
                           Some p \<Rightarrow> if p = 0 then None else Some p
                         | None \<Rightarrow> None),
          r_workoutIndex = w_workoutIndex w,
          r_week = (case w_week w of
                      Some k \<Rightarrow> if k = 0 then Some 1 else Some k
                    | None \<Rightarrow> Some 1),
          r_name = w_name w,
          r_exercises =
            map (\<lambda>ex. \<lparr>exerciseId = exerciseId ex, restTime = None,
                         sets = filter (\<lambda>s. completed s \<or> (weight s \<noteq> [] \<and> reps s \<noteq> []))
                                  (sets ex)\<rparr>)
              (filter (\<lambda>ex. \<exists>s \<in> set (sets ex).
                               completed s \<or> (weight s \<noteq> [] \<and> reps s \<noteq> []))
                 (w_exercises w)),
          r_notes = w_notes w\<rparr>]"
proof -
  have ne: "completedExercises (w_exercises w) \<noteq> []"
    using assms(3-5) by (intro completedExercises_nonempty[of ex _ s]) (auto simp: qualifies_def)
  have pid: "(if truthy (w_programId w) then w_programId w else None) =
      (case w_programId w of Some p \<Rightarrow> if p = 0 then None else Some p | None \<Rightarrow> None)"
    by (simp add: truthy_def split: option.splits)
  have wk: "Some (if truthy (w_week w) then the (w_week w) else 1) =
      (case w_week w of Some k \<Rightarrow> if k = 0 then Some 1 else Some k | None \<Rightarrow> Some 1)"
    by (simp add: truthy_def split: option.splits)
  show ?thesis
    using assms(1,2) ne
    by (simp add: finishWorkout_def Let_def pid wk completedExercises_alt[symmetric])
qed

text \<open>The scenario of the specification: one of three sets is logged; the record holds
  that set alone, and the session is gone.\<close>

theorem finishWorkout_appends_record_witness:
  "finishWorkout 2000 2000
     (initialState\<lparr>activeWorkout := Some (standaloneSession
        [\<lparr>exerciseId = 1, restTime = Some 120, sets = [loggedSet, emptySet, emptySet]\<rparr>])\<rparr>)
   = (Done,
      initialState\<lparr>workoutHistory :=
        [\<lparr>r_id = 2000, r_date = 2000, r_programId = None, r_workoutIndex = None,
          r_week = Some 1, r_name = ''Push Day'',
          r_exercises = [\<lparr>exerciseId = 1, restTime = None, sets = [loggedSet]\<rparr>],
          r_notes = []\<rparr>]\<rparr>)"
  using finishWorkout_appends_record
    [of "initialState\<lparr>activeWorkout := Some (standaloneSession
        [\<lparr>exerciseId = 1, restTime = Some 120, sets = [loggedSet, emptySet, emptySet]\<rparr>])\<rparr>"
      "standaloneSession
        [\<lparr>exerciseId = 1, restTime = Some 120, sets = [loggedSet, emptySet, emptySet]\<rparr>]"
      "\<lparr>exerciseId = 1, restTime = Some 120, sets = [loggedSet, emptySet, emptySet]\<rparr>"
      loggedSet 2000 2000]
  by (simp add: finishWorkout_def standaloneSession_def loggedSet_def emptySet_def initialState_def
      completedExercises_def qualifies_def truthy_def Let_def stopWorkoutTimer_def clearInterval_def)

text \<open>
  The claim as written says that the record carries the session's week. A session
  started from a standalone template has no week, and its record gets week \<open>1\<close>.
\<close>

theorem finishWorkout_week_counterexample:
  "w_week (standaloneSession [\<lparr>exerciseId = 1, restTime = Some 120, sets = [loggedSet]\<rparr>]) = None
   \<and> map r_week (workoutHistory (snd (finishWorkout 2000 2000
        (initialState\<lparr>activeWorkout := Some (standaloneSession
           [\<lparr>exerciseId = 1, restTime = Some 120, sets = [loggedSet]\<rparr>])\<rparr>)))) = [Some 1]"
  by (simp add: finishWorkout_def standaloneSession_def loggedSet_def initialState_def
      completedExercises_def qualifies_def truthy_def Let_def)

section \<open>Finishing a session that logged nothing\<close>

lemma completedExercises_empty:
  assumes "\<forall>ex \<in> set exs. \<forall>s \<in> set (sets ex). \<not> qualifies s"
  shows "completedExercises exs = []"
proof -
  have "filter (\<lambda>s. qualifies s) (sets ex) = []" if "ex \<in> set exs" for ex
    using assms that by (simp add: filter_empty_conv)
  then show ?thesis
    unfolding completedExercises_def by (simp add: filter_empty_conv)
qed

text \<open>
  Claim C2. When the session has no completed set and no set with both weight and reps
  filled in, \<open>finishWorkout\<close> ends with the alert (\<open>EmptySession\<close>) and the whole state
  is what it was: the session is still there with its data, and the history is
  unchanged.
\<close>

theorem finishWorkout_empty_session:
  assumes "activeWorkout st = Some w"
    and "\<forall>ex \<in> set (w_exercises w). \<forall>s \<in> set (sets ex).
           \<not> completed s \<and> (weight s = [] \<or> reps s = [])"
  shows "finishWorkout now today st = (EmptySession, st)"
proof -
  have "\<forall>ex \<in> set (w_exercises w). \<forall>s \<in> set (sets ex). \<not> qualifies s"
    using assms(2) by (auto simp: qualifies_def)
  then have "completedExercises (w_exercises w) = []"
    by (rule completedExercises_empty)
  then show ?thesis
    using assms(1) by (simp add: finishWorkout_def)
qed

theorem finishWorkout_empty_session_witness:
  "finishWorkout 2000 2000
     (initialState\<lparr>activeWorkout := Some (standaloneSession
        [\<lparr>exerciseId = 1, restTime = Some 120, sets = [emptySet, emptySet, emptySet]\<rparr>])\<rparr>)
   = (EmptySession,
      initialState\<lparr>activeWorkout := Some (standaloneSession
        [\<lparr>exerciseId = 1, restTime = Some 120, sets = [emptySet, emptySet, emptySet]\<rparr>])\<rparr>)"
  by (rule finishWorkout_empty_session
        [where w = "standaloneSession
          [\<lparr>exerciseId = 1, restTime = Some 120, sets = [emptySet, emptySet, emptySet]\<rparr>]"])
     (simp_all add: standaloneSession_def emptySet_def)

section \<open>Finishing a session that edits a history record\<close>

lemma findIndex_None: "findIndex P xs = None \<longleftrightarrow> (\<forall>x \<in> set xs. \<not> P x)"
  by (induction xs) auto

lemma findIndex_Some:
  "findIndex P xs = Some i \<Longrightarrow> i < length xs \<and> P (xs ! i) \<and> (\<forall>j < i. \<not> P (xs ! j))"
proof (induction xs arbitrary: i)
  case Nil
  then show ?case by simp
next
  case (Cons x xs)
  show ?case
  proof (cases "P x")
    case True
    with Cons.prems show ?thesis by simp
  next
    case False
    with Cons.prems obtain k where k: "findIndex P xs = Some k" "i = Suc k"
      by auto
    from Cons.IH[OF k(1)] False k(2) show ?thesis
      by (auto simp: less_Suc_eq_0_disj)
  qed
qed

lemma findIndex_distinct_key:
  assumes "distinct (map f xs)" and "x \<in> set xs"
  shows "\<exists>i. findIndex (\<lambda>y. f y = f x) xs = Some i \<and> i < length xs \<and> xs ! i = x"
proof -
  have "findIndex (\<lambda>y. f y = f x) xs \<noteq> None"
    using assms(2) by (auto simp: findIndex_None)
  then obtain i where i: "findIndex (\<lambda>y. f y = f x) xs = Some i" by auto
  from findIndex_Some[OF i] have il: "i < length xs" and fi: "f (xs ! i) = f x" by auto
  from assms(2) obtain j where j: "j < length xs" "xs ! j = x"
    by (auto simp: in_set_conv_nth)
  have "map f xs ! i = map f xs ! j" using il j fi by simp
  with assms(1) il j(1) have "i = j"
    by (simp add: nth_eq_iff_index_eq del: nth_map)
  with i il j show ?thesis by auto
qed

lemma list_update_as_map:
  assumes "distinct (map f xs)" and "i < length xs"
  shows "xs[i := y] = map (\<lambda>z. if f z = f (xs ! i) then y else z) xs"
proof (rule nth_equalityI)
  show "length (xs[i := y]) = length (map (\<lambda>z. if f z = f (xs ! i) then y else z) xs)"
    by simp
next
  fix j assume "j < length (xs[i := y])"
  then have j: "j < length xs" by simp
  have "f (xs ! j) = f (xs ! i) \<longleftrightarrow> j = i"
    using assms j nth_eq_iff_index_eq[of "map f xs" j i] by auto
  then show "xs[i := y] ! j = map (\<lambda>z. if f z = f (xs ! i) then y else z) xs ! j"
    using j by (auto simp: nth_list_update)
qed

lemma find_distinct_key:
  assumes "distinct (map f xs)" and "x \<in> set xs"
  shows "find (\<lambda>y. f y = f x) xs = Some x"
  using assms by (induction xs) (auto simp: image_iff)

lemma startWorkoutTimer_history [simp]:
  "workoutHistory (startWorkoutTimer now st) = workoutHistory st"
  by (simp add: startWorkoutTimer_def setInterval_def clearInterval_def Let_def
      split: option.splits)

lemma startWorkoutTimer_session:
  "activeWorkout st = Some w \<Longrightarrow>
   \<exists>t. activeWorkout (startWorkoutTimer now st) = Some (w\<lparr>w_startTime := t\<rparr>)"
  by (auto simp: startWorkoutTimer_def setInterval_def clearInterval_def Let_def
      split: option.splits)

lemma filter_map_update_key:
  assumes "\<And>r. f (g r) = f r"
  shows "filter (\<lambda>r. f r = k) (map (\<lambda>r. if f r = k then g r else r) xs) =
         map g (filter (\<lambda>r. f r = k) xs)"
  using assms by (induction xs) auto

lemma filter_distinct_key:
  assumes "distinct (map f xs)" and "x \<in> set xs"
  shows "filter (\<lambda>y. f y = f x) xs = [x]"
  using assms by (induction xs) (auto simp: image_iff filter_empty_conv)

lemma editHistoryWorkout_session:
  assumes "record \<in> set (workoutHistory st)" and "distinct (map r_id (workoutHistory st))"
  shows "workoutHistory (snd (editHistoryWorkout Number now (r_id record) st)) = workoutHistory st
       \<and> (\<exists>w. activeWorkout (snd (editHistoryWorkout Number now (r_id record) st)) = Some w
          \<and> w_historyId w = Some (r_id record)
          \<and> w_exercises w = r_exercises record \<and> w_notes w = r_notes record)"
proof -
  have f: "find (\<lambda>w. r_id w = r_id record) (workoutHistory st) = Some record"
    using find_distinct_key[OF assms(2,1)] .
  let ?w = "\<lparr>w_type = None, w_programId = r_programId record,
       w_workoutIndex = r_workoutIndex record, w_standaloneWorkoutId = None,
       w_week = r_week record, w_name = r_name record, w_exercises = r_exercises record,
       w_notes = r_notes record, w_historyId = Some (r_id record), w_startTime = None,
       w_id = Some (r_id record), w_date = Some (r_date record)\<rparr>"
  let ?st = "st\<lparr>activeWorkout := Some ?w\<rparr>"
  have e: "editHistoryWorkout Number now (r_id record) st = openActiveWorkout Number now ?st"
    by (simp add: editHistoryWorkout_def f)
  obtain t where t: "activeWorkout (startWorkoutTimer now ?st) = Some (?w\<lparr>w_startTime := t\<rparr>)"
    using startWorkoutTimer_session[of ?st ?w now] by auto
  from openActiveWorkout_cases[of Number now ?st] show ?thesis
  proof
    assume "openActiveWorkout Number now ?st = (TypeError, ?st)"
    then show ?thesis by (simp add: e)
  next
    assume "openActiveWorkout Number now ?st = (Done, startWorkoutTimer now ?st)"
    then show ?thesis using t by (simp add: e)
  qed
qed

lemma finishWorkout_resumed:
  assumes "activeWorkout st = Some w" and "w_historyId w = Some h" and "h \<noteq> 0"
    and "completedExercises (w_exercises w) \<noteq> []"
  shows "finishWorkout now today st =
    (Done, stopWorkoutTimer (st\<lparr>workoutHistory :=
        (case findIndex (\<lambda>r. r_id r = h) (workoutHistory st) of
           Some i \<Rightarrow> (workoutHistory st)
              [i := (workoutHistory st ! i)\<lparr>r_exercises := completedExercises (w_exercises w),
                                           r_notes := w_notes w\<rparr>]
         | None \<Rightarrow> workoutHistory st),
       activeWorkout := None\<rparr>))"
  using assms by (simp add: finishWorkout_def truthy_def Let_def)

lemma resumedState_eval:
  "resumedState =
     initialState
       \<lparr>workoutHistory := [record42],
        activeWorkout := Some
          \<lparr>w_type = None, w_programId = Some 7, w_workoutIndex = Some 0,
           w_standaloneWorkoutId = None, w_week = Some 1, w_name = ''Push Day'',
           w_exercises = [\<lparr>exerciseId = 1, restTime = None,
                           sets = [loggedSet\<lparr>reps := ''12''\<rparr>]\<rparr>],
           w_notes = ''felt strong'', w_historyId = Some 42, w_startTime = Some 1000,
           w_id = Some 42, w_date = Some 500\<rparr>,
        workoutDurationInterval := Some 1,
        workoutStartTime := Some 1000,
        intervals := [(1, UpdateWorkoutDurationDisplay)],
        nextHandle := 2\<rparr>"
  by (simp add: resumedState_def updateActiveSet_def editHistoryWorkout_def openActiveWorkout_def
      renderActiveExercises_def getLastExercisePerformance_def List.map_filter_def
      startWorkoutTimer_def setInterval_def clearInterval_def truthy_def Let_def
      initialState_def record42_def loggedSet_def)

text \<open>
  Claim C3. Let \<open>record\<close> be a record of the history, whose ids are unique (the data
  model's invariant) and whose id is a creation timestamp, hence not \<open>0\<close>. Resume it
  with \<open>editHistoryWorkout\<close>, let the user edit the session in any way that leaves the
  history alone and keeps the session's \<open>historyId\<close> (\<open>st2\<close>, with session \<open>w\<close>), and
  finish with at least one qualifying set. Then the call succeeds and clears the
  session; the history is the old one with that record's \<open>exercises\<close> and \<open>notes\<close>
  replaced, every other field (id and date among them) and every other record as
  before; no record is added; exactly one record has that id; and finishing the same
  session once more leaves the history as it is.
\<close>

theorem finishWorkout_overwrites_resumed_record:
  assumes "record \<in> set (workoutHistory st)"
    and "distinct (map r_id (workoutHistory st))"
    and "r_id record \<noteq> 0"
    and "st1 = snd (editHistoryWorkout Number now0 (r_id record) st)"
    and "workoutHistory st2 = workoutHistory st1"
    and "activeWorkout st2 = Some w"
    and "w_historyId w = w_historyId (the (activeWorkout st1))"
    and "ex \<in> set (w_exercises w)" and "s \<in> set (sets ex)"
    and "completed s \<or> (weight s \<noteq> [] \<and> reps s \<noteq> [])"
    and "st3 = snd (finishWorkout now today st2)"
  shows "fst (finishWorkout now today st2) = Done
    \<and> activeWorkout st3 = None
    \<and> workoutHistory st3 =
        map (\<lambda>r. if r_id r = r_id record
                  then r\<lparr>r_exercises := completedExercises (w_exercises w), r_notes := w_notes w\<rparr>
                  else r) (workoutHistory st)
    \<and> length (workoutHistory st3) = length (workoutHistory st)
    \<and> filter (\<lambda>r. r_id r = r_id record) (workoutHistory st3) =
        [record\<lparr>r_exercises := completedExercises (w_exercises w), r_notes := w_notes w\<rparr>]
    \<and> workoutHistory (snd (finishWorkout now' today' (st3\<lparr>activeWorkout := Some w\<rparr>))) =
        workoutHistory st3"
proof -
  let ?h = "workoutHistory st"
  let ?new = "\<lambda>r. r\<lparr>r_exercises := completedExercises (w_exercises w), r_notes := w_notes w\<rparr>"
  let ?upd = "\<lambda>r. if r_id r = r_id record then ?new r else r"
  have ne: "completedExercises (w_exercises w) \<noteq> []"
    using assms(8-10) by (intro completedExercises_nonempty[of ex _ s]) (auto simp: qualifies_def)
  from editHistoryWorkout_session[OF assms(1,2), of Number now0] assms(4)
  have h1: "workoutHistory st1 = ?h" and hid1: "w_historyId (the (activeWorkout st1)) = Some (r_id record)"
    by auto
  have h2: "workoutHistory st2 = ?h" and hid: "w_historyId w = Some (r_id record)"
    using assms(5,7) h1 hid1 by simp_all
  from findIndex_distinct_key[OF assms(2,1)] obtain i where
    i: "findIndex (\<lambda>y. r_id y = r_id record) ?h = Some i" "i < length ?h" "?h ! i = record"
    by auto
  have upd: "?h[i := ?new record] = map ?upd ?h"
  proof -
    have "?h[i := ?new record] = map (\<lambda>z. if r_id z = r_id (?h ! i) then ?new record else z) ?h"
      by (rule list_update_as_map[OF assms(2) i(2)])
    also have "\<dots> = map ?upd ?h"
    proof (rule map_cong[OF refl])
      fix z assume z: "z \<in> set ?h"
      have "r_id z = r_id record \<Longrightarrow> z = record"
        using assms(1,2) z by (meson distinct_map inj_onD)
      then show "(if r_id z = r_id (?h ! i) then ?new record else z) = ?upd z"
        using i(3) by auto
    qed
    finally show ?thesis .
  qed
  have fin: "finishWorkout now today st2 =
      (Done, stopWorkoutTimer (st2\<lparr>workoutHistory := map ?upd ?h, activeWorkout := None\<rparr>))"
    using finishWorkout_resumed[OF assms(6) hid assms(3) ne, of now today] i upd
    by (simp add: h2)
  then have h3: "workoutHistory st3 = map ?upd ?h" and a3: "activeWorkout st3 = None"
    using assms(11) by simp_all
  have ids: "map r_id (map ?upd ?h) = map r_id ?h"
    by (simp add: comp_def if_distrib cong: if_cong)
  have filt: "filter (\<lambda>r. r_id r = r_id record) (map ?upd ?h) = [?new record]"
  proof -
    have "filter (\<lambda>r. r_id r = r_id record) (map ?upd ?h) =
        map ?new (filter (\<lambda>r. r_id r = r_id record) ?h)"
      by (rule filter_map_update_key) simp
    moreover have "filter (\<lambda>r. r_id r = r_id record) ?h = [record]"
      by (rule filter_distinct_key[OF assms(2,1)])
    ultimately show ?thesis by simp
  qed
  have again: "workoutHistory (snd (finishWorkout now' today' (st3\<lparr>activeWorkout := Some w\<rparr>))) =
      map ?upd ?h"
  proof -
    let ?st = "st3\<lparr>activeWorkout := Some w\<rparr>"
    have hs: "workoutHistory ?st = map ?upd ?h"
      using h3 by simp
    have "map r_id (workoutHistory ?st) = map r_id ?h"
      unfolding hs by (rule ids)
    then have d: "distinct (map r_id (workoutHistory ?st))"
      using assms(2) by simp
    have m: "?new record \<in> set (workoutHistory ?st)"
      using assms(1) by (force simp: h3)
    from findIndex_distinct_key[OF d m] obtain j where
      j: "findIndex (\<lambda>y. r_id y = r_id record) (workoutHistory ?st) = Some j"
         "j < length (workoutHistory ?st)" "workoutHistory ?st ! j = ?new record"
      by auto
    have j3: "workoutHistory st3 ! j = ?new record"
      using j(3) by simp
    have e: "?new (workoutHistory ?st ! j) = workoutHistory ?st ! j"
      by (simp add: j3)
    have "(workoutHistory ?st)[j := ?new (workoutHistory ?st ! j)] = workoutHistory ?st"
      by (simp only: e list_update_id)
    then show ?thesis
      using finishWorkout_resumed[of ?st w "r_id record" now' today'] hid assms(3) ne j(1)
      by (simp add: h3)
  qed
  show ?thesis
    using fin h3 a3 filt again by simp
qed

text \<open>The scenario of the specification: record 42 is resumed, the reps of its set are
  changed to 12, and the workout is finished.\<close>

theorem finishWorkout_overwrites_resumed_record_witness:
  "fst (finishWorkout 3000 3000 resumedState) = Done
   \<and> workoutHistory (snd (finishWorkout 3000 3000 resumedState)) =
       [record42\<lparr>r_exercises := [\<lparr>exerciseId = 1, restTime = None,
                                   sets = [loggedSet\<lparr>reps := ''12''\<rparr>]\<rparr>]\<rparr>]
   \<and> filter (\<lambda>r. r_id r = 42) (workoutHistory (snd (finishWorkout 3000 3000 resumedState))) =
       [record42\<lparr>r_exercises := [\<lparr>exerciseId = 1, restTime = None,
                                   sets = [loggedSet\<lparr>reps := ''12''\<rparr>]\<rparr>]\<rparr>]"
proof -
  let ?st = "initialState\<lparr>workoutHistory := [record42]\<rparr>"
  let ?w = "the (activeWorkout resumedState)"
  have a: "record42 \<in> set (workoutHistory ?st)" by simp
  have b: "distinct (map r_id (workoutHistory ?st))" by simp
  have c: "r_id record42 \<noteq> 0" by (simp add: record42_def)
  have i: "r_id record42 = 42" by (simp add: record42_def)
  have d: "workoutHistory resumedState =
      workoutHistory (snd (editHistoryWorkout NumberOfDigits 1000 (r_id record42) ?st))"
    using editHistoryWorkout_session[OF a b, of NumberOfDigits 1000]
    by (simp add: resumedState_eval)
  have e: "activeWorkout resumedState = Some ?w"
    by (simp add: resumedState_eval)
  have f: "w_historyId ?w =
      w_historyId (the (activeWorkout (snd (editHistoryWorkout NumberOfDigits 1000 (r_id record42) ?st))))"
    using editHistoryWorkout_session[OF a b, of NumberOfDigits 1000]
    by (auto simp: resumedState_eval i)
  have g: "\<lparr>exerciseId = 1, restTime = None, sets = [loggedSet\<lparr>reps := ''12''\<rparr>]\<rparr>
      \<in> set (w_exercises ?w)"
    by (simp add: resumedState_eval)
  have h: "loggedSet\<lparr>reps := ''12''\<rparr> \<in>
      set (sets \<lparr>exerciseId = 1, restTime = None, sets = [loggedSet\<lparr>reps := ''12''\<rparr>]\<rparr>)"
    by simp
  have k: "completed (loggedSet\<lparr>reps := ''12''\<rparr>) \<or>
      (weight (loggedSet\<lparr>reps := ''12''\<rparr>) \<noteq> [] \<and> reps (loggedSet\<lparr>reps := ''12''\<rparr>) \<noteq> [])"
    by (simp add: loggedSet_def)
  have ce: "completedExercises (w_exercises ?w) =
      [\<lparr>exerciseId = 1, restTime = None, sets = [loggedSet\<lparr>reps := ''12''\<rparr>]\<rparr>]"
    by (simp add: resumedState_eval completedExercises_def qualifies_def loggedSet_def)
  have n: "w_notes ?w = r_notes record42"
    by (simp add: resumedState_eval record42_def)
  from finishWorkout_overwrites_resumed_record[OF a b c refl d e f g h k refl,
      of 3000 3000 3000 3000]
  show ?thesis
    by (simp add: ce n i)
qed

section \<open>Finishing after the resumed record was deleted\<close>

text \<open>
  Claim C10. When the session's \<open>historyId\<close> is set (a number other than \<open>0\<close>, the test
  \<open>if (state.activeWorkout.historyId)\<close>) and no record of the history has that id, a
  \<open>finishWorkout\<close> with a qualifying set ends normally, without the alert and without an
  exception, leaves the history exactly as it was, and clears the session: what was
  logged is in no record.
\<close>

theorem finishWorkout_after_record_deleted:
  assumes "activeWorkout st = Some w"
    and "w_historyId w = Some h" and "h \<noteq> 0"
    and "\<forall>r \<in> set (workoutHistory st). r_id r \<noteq> h"
    and "ex \<in> set (w_exercises w)" and "s \<in> set (sets ex)"
    and "completed s \<or> (weight s \<noteq> [] \<and> reps s \<noteq> [])"
  shows "fst (finishWorkout now today st) = Done
    \<and> workoutHistory (snd (finishWorkout now today st)) = workoutHistory st
    \<and> activeWorkout (snd (finishWorkout now today st)) = None"
proof -
  have ne: "completedExercises (w_exercises w) \<noteq> []"
    using assms(5-7) by (intro completedExercises_nonempty[of ex _ s]) (auto simp: qualifies_def)
  have "findIndex (\<lambda>r. r_id r = h) (workoutHistory st) = None"
    using assms(4) by (simp add: findIndex_None)
  then show ?thesis
    using finishWorkout_resumed[OF assms(1-3) ne, of now today] by simp
qed

text \<open>Record 42 is resumed, edited, deleted from the history with
  \<open>deleteHistoryWorkout\<close>, and the session is finished: the history stays empty.\<close>

theorem finishWorkout_after_record_deleted_witness:
  "workoutHistory (deleteHistoryWorkout True 42 resumedState) = []
   \<and> finishWorkout 3000 3000 (deleteHistoryWorkout True 42 resumedState) =
       (Done, initialState\<lparr>workoutStartTime := Some 1000, nextHandle := 2\<rparr>)"
proof -
  let ?st = "deleteHistoryWorkout True 42 resumedState"
  let ?w = "the (activeWorkout resumedState)"
  have hist: "workoutHistory ?st = []"
    by (simp add: deleteHistoryWorkout_def resumedState_eval record42_def)
  have a: "activeWorkout ?st = Some ?w"
    by (simp add: deleteHistoryWorkout_def resumedState_eval)
  have b: "w_historyId ?w = Some 42" by (simp add: resumedState_eval)
  have c: "\<forall>r \<in> set (workoutHistory ?st). r_id r \<noteq> 42" by (simp add: hist)
  have g: "\<lparr>exerciseId = 1, restTime = None, sets = [loggedSet\<lparr>reps := ''12''\<rparr>]\<rparr>
      \<in> set (w_exercises ?w)"
    by (simp add: resumedState_eval)
  have h: "loggedSet\<lparr>reps := ''12''\<rparr> \<in>
      set (sets \<lparr>exerciseId = 1, restTime = None, sets = [loggedSet\<lparr>reps := ''12''\<rparr>]\<rparr>)"
    by simp
  have k: "completed (loggedSet\<lparr>reps := ''12''\<rparr>) \<or>
      (weight (loggedSet\<lparr>reps := ''12''\<rparr>) \<noteq> [] \<and> reps (loggedSet\<lparr>reps := ''12''\<rparr>) \<noteq> [])"
    by (simp add: loggedSet_def)
  from finishWorkout_after_record_deleted[OF a b _ c g h k, of 3000 3000]
  have "fst (finishWorkout 3000 3000 ?st) = Done
      \<and> workoutHistory (snd (finishWorkout 3000 3000 ?st)) = []
      \<and> activeWorkout (snd (finishWorkout 3000 3000 ?st)) = None"
    by (simp add: hist)
  moreover have "finishWorkout 3000 3000 ?st =
      (Done, initialState\<lparr>workoutStartTime := Some 1000, nextHandle := 2\<rparr>)"
    by (simp add: finishWorkout_def deleteHistoryWorkout_def resumedState_eval record42_def
        completedExercises_def qualifies_def loggedSet_def truthy_def Let_def
        stopWorkoutTimer_def clearInterval_def initialState_def)
  ultimately show ?thesis using hist by simp
qed

section \<open>Starting a workout from a template: the session's exercises\<close>

lemma startWorkoutTimer_exercises:
  "activeWorkout st = Some w \<Longrightarrow>
   \<exists>w'. activeWorkout (startWorkoutTimer now st) = Some w' \<and> w_exercises w' = w_exercises w"
  using startWorkoutTimer_session[of st w now] by auto

lemma sessionExercises_nth:
  assumes "k < length (wt_exercises template)"
  shows "sessionExercises catalog template ! k =
     \<lparr>exerciseId = t_exerciseId (wt_exercises template ! k),
      restTime = Some (case t_restTime (wt_exercises template ! k) of
                         Some r \<Rightarrow> r
                       | None \<Rightarrow> getRestTimeForExercise catalog
                                   (t_exerciseId (wt_exercises template ! k))),
      sets = map (\<lambda>s. \<lparr>weight = [], targetReps = ts_reps s, reps = [], completed = False\<rparr>)
               (t_sets (wt_exercises template ! k))\<rparr>"
  using assms by (simp add: sessionExercises_def)

lemma pushDayStarted_eval:
  "pushDayStarted =
     initialState
       \<lparr>activeWorkout := Some
          \<lparr>w_type = Some ProgramWorkout, w_programId = Some 7, w_workoutIndex = Some 0,
           w_standaloneWorkoutId = None, w_week = Some 1, w_name = ''Push Day'',
           w_exercises = [\<lparr>exerciseId = 1, restTime = Some 120,
                           sets = [emptySet, emptySet, emptySet]\<rparr>],
           w_notes = [], w_historyId = None, w_startTime = Some 1000,
           w_id = None, w_date = None\<rparr>,
        workoutDurationInterval := Some 1,
        workoutStartTime := Some 1000,
        intervals := [(1, UpdateWorkoutDurationDisplay)],
        nextHandle := 2\<rparr>"
  by (simp add: pushDayStarted_def initialState_def pushDay_def emptySet_def
      startProgramWorkout_def openActiveWorkout_def startWorkoutTimer_def setInterval_def
      clearInterval_def truthy_def sessionExercises_def Let_def
      renderActiveExercises_def getLastExercisePerformance_def List.map_filter_def)

text \<open>
  Claim C4. Let the rests of the catalog be other than \<open>0\<close>, as the built-in table and
  \<open>saveExercise\<close> write them. Starting a workout from a program's template
  (\<open>startProgramWorkout\<close>) or from a standalone template (\<open>startStandaloneWorkout\<close>), with
  no session in progress or the user's consent to discard it, installs a session with
  one exercise per template entry, in order. Each has the entry's exercise id; its
  rest is the entry's own rest when the entry has one, else the catalog's rest for that
  exercise, else 90 when the catalog does not know the exercise; and it has one set per
  target set of the entry, in order, with empty weight and reps, not completed, and the
  target reps of the template's set. The session is installed even when the rendering
  that follows throws; the call ends normally when every entry of the history has a
  set, as \<open>finishWorkout\<close> writes them.
\<close>

theorem start_workout_instantiates_template:
  fixes Number :: "string \<Rightarrow> 'n::linorder option"
  assumes "activeWorkout st = None \<or> confirmed"
    and "\<forall>d \<in> set (exercises st). e_restTime d \<noteq> 0"
    and "(find (\<lambda>p. p_id p = programId) (programs st) = Some program
          \<and> index < length (p_workouts program)
          \<and> template = p_workouts program ! index
          \<and> res = startProgramWorkout Number confirmed programId index now st)
       \<or> (find (\<lambda>w. wt_id w = Some i) (standaloneWorkouts st) = Some template
          \<and> res = startStandaloneWorkout Number confirmed i now st)"
  shows
    "(\<exists>w. activeWorkout (snd res) = Some w
       \<and> length (w_exercises w) = length (wt_exercises template)
       \<and> (\<forall>k < length (wt_exercises template).
            exerciseId (w_exercises w ! k) = t_exerciseId (wt_exercises template ! k)
          \<and> restTime (w_exercises w ! k) =
              Some (case t_restTime (wt_exercises template ! k) of
                      Some r \<Rightarrow> r
                    | None \<Rightarrow>
                       (case find (\<lambda>e. e_id e = t_exerciseId (wt_exercises template ! k))
                               (exercises st) of
                          Some d \<Rightarrow> e_restTime d
                        | None \<Rightarrow> 90))
          \<and> length (sets (w_exercises w ! k)) = length (t_sets (wt_exercises template ! k))
          \<and> (\<forall>j < length (t_sets (wt_exercises template ! k)).
                sets (w_exercises w ! k) ! j =
                  \<lparr>weight = [], targetReps = ts_reps (t_sets (wt_exercises template ! k) ! j),
                   reps = [], completed = False\<rparr>)))
   \<and> ((\<forall>r \<in> set (workoutHistory st). \<forall>e \<in> set (r_exercises r). sets e \<noteq> [])
        \<longrightarrow> fst res = Done)"
proof -
  have "\<exists>w0. res = openActiveWorkout Number now (st\<lparr>activeWorkout := Some w0\<rparr>)
      \<and> w_exercises w0 = sessionExercises (exercises st) template"
    using assms(1,3)
    by (auto simp: startProgramWorkout_def startStandaloneWorkout_def Let_def)
  then obtain w0 where res: "res = openActiveWorkout Number now (st\<lparr>activeWorkout := Some w0\<rparr>)"
    and w0: "w_exercises w0 = sessionExercises (exercises st) template"
    by auto
  let ?st = "st\<lparr>activeWorkout := Some w0\<rparr>"
  have "\<exists>w. activeWorkout (snd res) = Some w \<and> w_exercises w = w_exercises w0"
  proof -
    from openActiveWorkout_cases[of Number now ?st]
    have "snd res = ?st \<or> snd res = startWorkoutTimer now ?st"
      unfolding res by auto
    then show ?thesis
    proof
      assume "snd res = ?st"
      then show ?thesis by simp
    next
      assume "snd res = startWorkoutTimer now ?st"
      then show ?thesis using startWorkoutTimer_exercises[of ?st w0 now] by simp
    qed
  qed
  then obtain w where w: "activeWorkout (snd res) = Some w" "w_exercises w = w_exercises w0"
    by auto
  have ex: "w_exercises w = sessionExercises (exercises st) template"
    using w(2) w0 by simp
  have len: "length (w_exercises w) = length (wt_exercises template)"
    by (simp add: ex sessionExercises_def)
  have rest: "getRestTimeForExercise (exercises st) x =
      (case find (\<lambda>e. e_id e = x) (exercises st) of
         Some d \<Rightarrow> e_restTime d
       | None \<Rightarrow> 90)" for x
  proof (cases "find (\<lambda>e. e_id e = x) (exercises st)")
    case None
    then show ?thesis by (simp add: getRestTimeForExercise_def)
  next
    case (Some d)
    then have "d \<in> set (exercises st)" by (simp add: find_Some_set)
    with assms(2) have "e_restTime d \<noteq> 0" by simp
    with Some show ?thesis by (simp add: getRestTimeForExercise_def)
  qed
  have session: "\<exists>w. activeWorkout (snd res) = Some w
       \<and> length (w_exercises w) = length (wt_exercises template)
       \<and> (\<forall>k < length (wt_exercises template).
            exerciseId (w_exercises w ! k) = t_exerciseId (wt_exercises template ! k)
          \<and> restTime (w_exercises w ! k) =
              Some (case t_restTime (wt_exercises template ! k) of
                      Some r \<Rightarrow> r
                    | None \<Rightarrow>
                       (case find (\<lambda>e. e_id e = t_exerciseId (wt_exercises template ! k))
                               (exercises st) of
                          Some d \<Rightarrow> e_restTime d
                        | None \<Rightarrow> 90))
          \<and> length (sets (w_exercises w ! k)) = length (t_sets (wt_exercises template ! k))
          \<and> (\<forall>j < length (t_sets (wt_exercises template ! k)).
                sets (w_exercises w ! k) ! j =
                  \<lparr>weight = [], targetReps = ts_reps (t_sets (wt_exercises template ! k) ! j),
                   reps = [], completed = False\<rparr>))"
    using w(1) len
    by (intro exI[of _ w]) (auto simp: ex sessionExercises_nth rest split: option.splits)
  have "fst res = Done"
    if "\<forall>r \<in> set (workoutHistory st). \<forall>e \<in> set (r_exercises r). sets e \<noteq> []"
  proof -
    have "renderActiveExercises Number ?st = Done"
      using that by (intro renderActiveExercises_Done) simp_all
    then show ?thesis by (simp add: res openActiveWorkout_def)
  qed
  with session show ?thesis by blast
qed

text \<open>The scenario of the specification: "Push Day" with one exercise, three target sets
  of 8-12 and a rest of 120 seconds gives a session with one exercise, rest 120 and
  three empty, uncompleted sets.\<close>

theorem start_workout_instantiates_template_witness:
  "fst (startProgramWorkout NumberOfDigits False 7 0 1000 initialState) = Done
   \<and> map_option w_exercises
       (activeWorkout (snd (startProgramWorkout NumberOfDigits False 7 0 1000 initialState)))
     = Some [\<lparr>exerciseId = 1, restTime = Some 120, sets = [emptySet, emptySet, emptySet]\<rparr>]"
proof -
  let ?res = "startProgramWorkout NumberOfDigits False 7 0 1000 initialState"
  have a: "activeWorkout initialState = None \<or> False" by (simp add: initialState_def)
  have z: "\<forall>d \<in> set (exercises initialState). e_restTime d \<noteq> 0"
    by (simp add: initialState_def benchPress_def)
  have b: "(find (\<lambda>p. p_id p = 7) (programs initialState) =
              Some \<lparr>p_id = 7, p_name = ''Strength'', p_workouts = [pushDay]\<rparr>
          \<and> 0 < length (p_workouts \<lparr>p_id = 7, p_name = ''Strength'', p_workouts = [pushDay]\<rparr>)
          \<and> pushDay = p_workouts \<lparr>p_id = 7, p_name = ''Strength'', p_workouts = [pushDay]\<rparr> ! 0
          \<and> ?res = startProgramWorkout NumberOfDigits False 7 0 1000 initialState)
       \<or> (find (\<lambda>w. wt_id w = Some 0) (standaloneWorkouts initialState) = Some pushDay
          \<and> ?res = startStandaloneWorkout NumberOfDigits False 0 1000 initialState)"
    by (simp add: initialState_def)
  have h: "\<forall>r \<in> set (workoutHistory initialState). \<forall>e \<in> set (r_exercises r). sets e \<noteq> []"
    by (simp add: initialState_def)
  from start_workout_instantiates_template[OF a z b] h
  have "fst ?res = Done" by blast
  moreover have "map_option w_exercises (activeWorkout (snd ?res)) =
      Some [\<lparr>exerciseId = 1, restTime = Some 120, sets = [emptySet, emptySet, emptySet]\<rparr>]"
    by (simp add: pushDayStarted_eval[unfolded pushDayStarted_def])
  ultimately show ?thesis by simp
qed

section \<open>Ticking a set and the rest timer\<close>

lemma firstSetDone_eval:
  "firstSetDone =
     initialState
       \<lparr>activeWorkout := Some
          \<lparr>w_type = Some ProgramWorkout, w_programId = Some 7, w_workoutIndex = Some 0,
           w_standaloneWorkoutId = None, w_week = Some 1, w_name = ''Push Day'',
           w_exercises = [\<lparr>exerciseId = 1, restTime = Some 120,
                           sets = [loggedSet, emptySet, emptySet]\<rparr>],
           w_notes = [], w_historyId = None, w_startTime = Some 1000,
           w_id = None, w_date = None\<rparr>,
        workoutDurationInterval := Some 1,
        workoutStartTime := Some 1000,
        restTimerInterval := Some 2,
        restTimerRemaining := 120,
        restTimerTotal := 120,
        intervals := [(1, UpdateWorkoutDurationDisplay), (2, RunRestTimerTick)],
        nextHandle := 3\<rparr>"
  by (simp add: firstSetDone_def pushDayStarted_eval initialState_def emptySet_def loggedSet_def
      toggleSetComplete_def updateActiveSet_def startRestTimer_def setInterval_def Let_def
      renderActiveExercises_def getLastExercisePerformance_def List.map_filter_def)

text \<open>
  Claim C5. Let every entry of the history have a set, as \<open>finishWorkout\<close> writes them,
  so that the rendering in the middle of \<open>toggleSetComplete\<close> completes. For a set of
  the session that is not completed, \<open>toggleSetComplete\<close> marks it completed and starts
  the rest timer: total and remaining seconds become the exercise's rest (the session
  exercise's \<open>restTime\<close> when it has one, else the rest of the catalog entry with the
  exercise's id, else 90) and a new countdown interval is registered and remembered.
  For a completed set it only clears the mark: remaining and total seconds, the
  remembered interval and the browser's intervals are what they were.
\<close>

theorem toggleSetComplete_rest_timer:
  fixes Number :: "string \<Rightarrow> 'n::linorder option"
  assumes "activeWorkout st = Some w"
    and "\<forall>r \<in> set (workoutHistory st). \<forall>e \<in> set (r_exercises r). sets e \<noteq> []"
    and "exIndex < length (w_exercises w)"
    and "exercise = w_exercises w ! exIndex"
    and "setIndex < length (sets exercise)"
    and "s = sets exercise ! setIndex"
    and "st' = snd (toggleSetComplete Number exIndex setIndex st)"
    and "duration =
          (case restTime exercise of
             Some r \<Rightarrow> r
           | None \<Rightarrow> (case find (\<lambda>e. e_id e = exerciseId exercise) (exercises st) of
                         Some d \<Rightarrow> e_restTime d
                       | None \<Rightarrow> 90))"
  shows "fst (toggleSetComplete Number exIndex setIndex st) = Done
    \<and> (\<exists>w'. activeWorkout st' = Some w'
         \<and> completed (sets (w_exercises w' ! exIndex) ! setIndex) = (\<not> completed s))
    \<and> (\<not> completed s \<longrightarrow>
          restTimerTotal st' = duration \<and> restTimerRemaining st' = duration
        \<and> restTimerInterval st' = Some (nextHandle st)
        \<and> intervals st' = intervals st @ [(nextHandle st, RunRestTimerTick)]
        \<and> nextHandle st' = Suc (nextHandle st))
    \<and> (completed s \<longrightarrow>
          restTimerTotal st' = restTimerTotal st
        \<and> restTimerRemaining st' = restTimerRemaining st
        \<and> restTimerInterval st' = restTimerInterval st
        \<and> intervals st' = intervals st
        \<and> nextHandle st' = nextHandle st)"
proof -
  have r: "renderActiveExercises Number (st\<lparr>activeWorkout := Some v\<rparr>) = Done" for v
    using assms(2) by (intro renderActiveExercises_Done) simp_all
  show ?thesis
    using assms(1,3-8)
    by (auto simp: toggleSetComplete_def startRestTimer_def setInterval_def Let_def r
        split: option.splits)
qed

text \<open>The scenario of the specification: ticking the first set of "Push Day" starts the
  timer at 120 seconds; ticking it again, back to not completed, leaves the timer as
  it is.\<close>

theorem toggleSetComplete_rest_timer_witness:
  "restTimerTotal firstSetDone = 120 \<and> restTimerRemaining firstSetDone = 120
   \<and> restTimerInterval firstSetDone = Some 2
   \<and> restTimerTotal (snd (toggleSetComplete NumberOfDigits 0 0 firstSetDone)) = 120
   \<and> restTimerRemaining (snd (toggleSetComplete NumberOfDigits 0 0 firstSetDone)) = 120
   \<and> restTimerInterval (snd (toggleSetComplete NumberOfDigits 0 0 firstSetDone)) = Some 2
   \<and> intervals (snd (toggleSetComplete NumberOfDigits 0 0 firstSetDone)) = intervals firstSetDone"
proof -
  let ?before = "snd (updateActiveSet 0 0 Reps ''10''
         (snd (updateActiveSet 0 0 Weight ''135'' pushDayStarted)))"
  let ?w = "the (activeWorkout ?before)"
  have b: "activeWorkout ?before = Some ?w"
    by (simp add: pushDayStarted_eval updateActiveSet_def Let_def)
  have on: "\<not> completed (sets (w_exercises ?w ! 0) ! 0)"
    by (simp add: pushDayStarted_eval updateActiveSet_def Let_def emptySet_def)
  have "restTimerTotal firstSetDone = 120 \<and> restTimerRemaining firstSetDone = 120
      \<and> restTimerInterval firstSetDone = Some 2"
    using toggleSetComplete_rest_timer[OF b _ _ refl _ refl refl refl, of 0 0 NumberOfDigits] on
    by (simp add: firstSetDone_def pushDayStarted_eval updateActiveSet_def Let_def
        initialState_def)
  moreover
  let ?v = "the (activeWorkout firstSetDone)"
  have a: "activeWorkout firstSetDone = Some ?v"
    by (simp add: firstSetDone_eval)
  have off: "completed (sets (w_exercises ?v ! 0) ! 0)"
    by (simp add: firstSetDone_eval loggedSet_def)
  have "restTimerTotal (snd (toggleSetComplete NumberOfDigits 0 0 firstSetDone)) = restTimerTotal firstSetDone
      \<and> restTimerRemaining (snd (toggleSetComplete NumberOfDigits 0 0 firstSetDone)) = restTimerRemaining firstSetDone
      \<and> restTimerInterval (snd (toggleSetComplete NumberOfDigits 0 0 firstSetDone)) = restTimerInterval firstSetDone
      \<and> intervals (snd (toggleSetComplete NumberOfDigits 0 0 firstSetDone)) = intervals firstSetDone"
    using toggleSetComplete_rest_timer[OF a _ _ refl _ refl refl refl, of 0 0 NumberOfDigits] off
    by (simp add: firstSetDone_eval initialState_def)
  ultimately show ?thesis by simp
qed

section \<open>Starting the rest timer while it runs\<close>

text \<open>
  Claim C6 fails on the code. \<open>startRestTimer\<close> overwrites \<open>restTimerInterval\<close> with the
  handle of a new interval and never cancels the one it held, unlike \<open>startWorkoutTimer\<close>,
  which calls \<open>clearInterval\<close> first. Ticking the second set of "Push Day" while the rest
  timer of the first set still runs leaves two countdown intervals alive, and one
  second later the remaining seconds have dropped by two. \<open>skipRestTimer\<close> then cancels
  the newer interval only.
\<close>

theorem startRestTimer_leaks_running_countdown:
  "countdowns firstSetDone = 1
   \<and> countdowns (snd (toggleSetComplete NumberOfDigits 0 1 firstSetDone)) = 2
   \<and> restTimerRemaining (snd (toggleSetComplete NumberOfDigits 0 1 firstSetDone)) = 120
   \<and> restTimerRemaining (oneSecond (snd (toggleSetComplete NumberOfDigits 0 1 firstSetDone))) = 118
   \<and> countdowns (skipRestTimer (snd (toggleSetComplete NumberOfDigits 0 1 firstSetDone))) = 1"
  by (simp add: firstSetDone_eval initialState_def emptySet_def loggedSet_def benchPress_def
      toggleSetComplete_def startRestTimer_def setInterval_def clearInterval_def
      skipRestTimer_def countdowns_def oneSecond_def fire_def runRestTimerTick_def Let_def
      renderActiveExercises_def getLastExercisePerformance_def List.map_filter_def)

section \<open>Adjusting the rest timer\<close>

lemma adjustRestTimer_total_mono:
  "restTimerTotal st \<le> restTimerTotal (fold adjustRestTimer ds st)"
proof (induction ds arbitrary: st)
  case Nil
  then show ?case by simp
next
  case (Cons d ds)
  have "restTimerTotal st \<le> restTimerTotal (adjustRestTimer d st)"
    by (simp add: adjustRestTimer_def Let_def)
  also have "\<dots> \<le> restTimerTotal (fold adjustRestTimer ds (adjustRestTimer d st))"
    by (rule Cons.IH)
  finally show ?case by simp
qed

lemma adjustRestTimer_remaining_ge_1:
  "ds \<noteq> [] \<Longrightarrow> 1 \<le> restTimerRemaining (fold adjustRestTimer ds st)"
proof (induction ds arbitrary: st rule: rev_induct)
  case Nil
  then show ?case by simp
next
  case (snoc d ds)
  show ?case by (simp add: adjustRestTimer_def Let_def)
qed

text \<open>
  Claim C8. \<open>adjustRestTimer\<close> sets the remaining seconds to \<open>max(1, remaining + delta)\<close>
  and the total to the larger of the old total and the new remaining seconds, for any
  timer state and any delta; so the remaining seconds are at least 1 after any
  non-empty sequence of adjustments, and the total never decreases along a sequence of
  adjustments, whatever the signs of the deltas.
\<close>

theorem adjustRestTimer_remaining_and_total:
  "restTimerRemaining (adjustRestTimer delta st) = max 1 (restTimerRemaining st + delta)
   \<and> restTimerTotal (adjustRestTimer delta st) =
       max (restTimerTotal st) (max 1 (restTimerRemaining st + delta))
   \<and> 1 \<le> restTimerRemaining (adjustRestTimer delta st)
   \<and> restTimerTotal st \<le> restTimerTotal (adjustRestTimer delta st)
   \<and> (ds \<noteq> [] \<longrightarrow> 1 \<le> restTimerRemaining (fold adjustRestTimer ds st))
   \<and> restTimerTotal (fold adjustRestTimer ds st)
       \<le> restTimerTotal (fold adjustRestTimer (ds @ es) st)"
proof -
  have "restTimerTotal (fold adjustRestTimer ds st)
      \<le> restTimerTotal (fold adjustRestTimer es (fold adjustRestTimer ds st))"
    by (rule adjustRestTimer_total_mono)
  then show ?thesis
    using adjustRestTimer_remaining_ge_1[of ds st]
    by (simp add: adjustRestTimer_def Let_def)
qed

text \<open>A timer at 5 of 120 seconds: 30 seconds are taken off, then 200 added, then 500
  taken off.\<close>

theorem adjustRestTimer_remaining_and_total_witness:
  "map (\<lambda>ds. (restTimerRemaining (fold adjustRestTimer ds
                  (initialState\<lparr>restTimerRemaining := 5, restTimerTotal := 120\<rparr>)),
               restTimerTotal (fold adjustRestTimer ds
                  (initialState\<lparr>restTimerRemaining := 5, restTimerTotal := 120\<rparr>))))
     [[-30], [-30, 200], [-30, 200, -500]]
   = [(1, 120), (201, 201), (1, 201)]"
  using adjustRestTimer_remaining_and_total
    [of "-30" "initialState\<lparr>restTimerRemaining := 5, restTimerTotal := 120\<rparr>" "[-30, 200]" "[-500]"]
  by (simp add: adjustRestTimer_def Let_def)

section \<open>Last performance of an exercise: the most recent record's best set\<close>

lemma hd_insort_key:
  "hd (insort_key f a ys) = (if ys = [] \<or> f a \<le> f (hd ys) then a else hd ys)"
  by (cases ys) auto

lemma hd_sort_key_first_least:
  assumes "i < length xs"
    and "\<forall>j < length xs. f (xs ! i) \<le> f (xs ! j)"
    and "\<forall>j < i. f (xs ! i) < f (xs ! j)"
  shows "hd (sort_key f xs) = xs ! i"
  using assms
proof (induction xs arbitrary: i)
  case Nil
  then show ?case by simp
next
  case (Cons a xs)
  show ?case
  proof (cases i)
    case 0
    show ?thesis
    proof (cases "xs = []")
      case True
      with 0 show ?thesis by simp
    next
      case False
      then have "hd (sort_key f xs) \<in> set xs" by (rule hd_sort_key_in_set)
      then obtain j where "j < length xs" "xs ! j = hd (sort_key f xs)"
        by (auto simp: in_set_conv_nth)
      with Cons.prems(2) 0 have "f a \<le> f (hd (sort_key f xs))"
        by (metis Suc_less_eq length_Cons nth_Cons_0 nth_Cons_Suc)
      with 0 show ?thesis by (simp add: hd_insort_key)
    qed
  next
    case (Suc k)
    have k: "k < length xs" using Cons.prems(1) Suc by simp
    have le: "\<forall>j < length xs. f (xs ! k) \<le> f (xs ! j)"
      using Cons.prems(2) Suc by (metis Suc_less_eq length_Cons nth_Cons_Suc)
    have lt: "\<forall>j < k. f (xs ! k) < f (xs ! j)"
      using Cons.prems(3) Suc by (metis Suc_less_eq nth_Cons_Suc)
    have ih: "hd (sort_key f xs) = xs ! k"
      by (rule Cons.IH[OF k le lt])
    have "f (xs ! k) < f a"
      using Cons.prems(3) Suc by (metis nth_Cons_0 nth_Cons_Suc zero_less_Suc)
    then have "\<not> f a \<le> f (xs ! k)" by simp
    moreover have "sort_key f xs \<noteq> []" using k by (intro sort_key_not_Nil) auto
    ultimately show ?thesis
      using ih Suc by (simp add: hd_insort_key)
  qed
qed

lemma foldl_first_greatest:
  fixes g :: "'a \<Rightarrow> 'n::linorder"
  shows "(foldl (\<lambda>m c. if g m < g c then c else m) acc ys = acc \<and> (\<forall>y \<in> set ys. g y \<le> g acc))
     \<or> (\<exists>k < length ys. foldl (\<lambda>m c. if g m < g c then c else m) acc ys = ys ! k
          \<and> g acc < g (ys ! k) \<and> (\<forall>y \<in> set ys. g y \<le> g (ys ! k))
          \<and> (\<forall>j < k. g (ys ! j) < g (ys ! k)))"
proof (induction ys arbitrary: acc)
  case Nil
  then show ?case by simp
next
  case (Cons y ys)
  let ?step = "\<lambda>m c. if g m < g c then c else m"
  show ?case
  proof (cases "g acc < g y")
    case True
    from Cons.IH[of y] show ?thesis
    proof
      assume h: "foldl ?step y ys = y \<and> (\<forall>z \<in> set ys. g z \<le> g y)"
      have "0 < length (y # ys)" by simp
      moreover have "foldl ?step acc (y # ys) = (y # ys) ! 0" using True h by simp
      moreover have "g acc < g ((y # ys) ! 0)" using True by simp
      moreover have "\<forall>z \<in> set (y # ys). g z \<le> g ((y # ys) ! 0)" using h by simp
      moreover have "\<forall>j < (0::nat). g ((y # ys) ! j) < g ((y # ys) ! 0)" by simp
      ultimately show ?thesis by blast
    next
      assume "\<exists>k < length ys. foldl ?step y ys = ys ! k \<and> g y < g (ys ! k)
          \<and> (\<forall>z \<in> set ys. g z \<le> g (ys ! k)) \<and> (\<forall>j < k. g (ys ! j) < g (ys ! k))"
      then obtain k where k: "k < length ys" "foldl ?step y ys = ys ! k" "g y < g (ys ! k)"
        "\<forall>z \<in> set ys. g z \<le> g (ys ! k)" "\<forall>j < k. g (ys ! j) < g (ys ! k)" by blast
      have "Suc k < length (y # ys)" using k(1) by simp
      moreover have "foldl ?step acc (y # ys) = (y # ys) ! Suc k" using True k(2) by simp
      moreover have "g acc < g ((y # ys) ! Suc k)" using True k(3) by simp
      moreover have "\<forall>z \<in> set (y # ys). g z \<le> g ((y # ys) ! Suc k)" using k(3,4) by auto
      moreover have "\<forall>j < Suc k. g ((y # ys) ! j) < g ((y # ys) ! Suc k)"
        using k(3,5) by (auto simp: less_Suc_eq_0_disj)
      ultimately show ?thesis by blast
    qed
  next
    case False
    then have ya: "g y \<le> g acc" by simp
    from Cons.IH[of acc] show ?thesis
    proof
      assume "foldl ?step acc ys = acc \<and> (\<forall>z \<in> set ys. g z \<le> g acc)"
      then show ?thesis using False ya by simp
    next
      assume "\<exists>k < length ys. foldl ?step acc ys = ys ! k \<and> g acc < g (ys ! k)
          \<and> (\<forall>z \<in> set ys. g z \<le> g (ys ! k)) \<and> (\<forall>j < k. g (ys ! j) < g (ys ! k))"
      then obtain k where k: "k < length ys" "foldl ?step acc ys = ys ! k" "g acc < g (ys ! k)"
        "\<forall>z \<in> set ys. g z \<le> g (ys ! k)" "\<forall>j < k. g (ys ! j) < g (ys ! k)" by blast
      have "Suc k < length (y # ys)" using k(1) by simp
      moreover have "foldl ?step acc (y # ys) = (y # ys) ! Suc k" using False k(2) by simp
      moreover have "g acc < g ((y # ys) ! Suc k)" using k(3) by simp
      moreover have "\<forall>z \<in> set (y # ys). g z \<le> g ((y # ys) ! Suc k)" using k(3,4) ya by auto
      moreover have "\<forall>j < Suc k. g ((y # ys) ! j) < g ((y # ys) ! Suc k)"
        using k(3,5) ya by (auto simp: less_Suc_eq_0_disj)
      ultimately show ?thesis by blast
    qed
  qed
qed

lemma reduce_first_greatest:
  fixes g :: "'a \<Rightarrow> 'n::linorder"
  assumes "xs \<noteq> []"
  shows "\<exists>k < length xs. foldl (\<lambda>m c. if g m < g c then c else m) (hd xs) xs = xs ! k
          \<and> (\<forall>y \<in> set xs. g y \<le> g (xs ! k)) \<and> (\<forall>j < k. g (xs ! j) < g (xs ! k))"
proof -
  let ?step = "\<lambda>m c. if g m < g c then c else m"
  from foldl_first_greatest[of g "hd xs" xs] show ?thesis
  proof
    assume h: "foldl ?step (hd xs) xs = hd xs \<and> (\<forall>y \<in> set xs. g y \<le> g (hd xs))"
    have "0 < length xs" using assms by simp
    moreover have "foldl ?step (hd xs) xs = xs ! 0" using h assms by (simp add: hd_conv_nth)
    moreover have "\<forall>y \<in> set xs. g y \<le> g (xs ! 0)" using h assms by (simp add: hd_conv_nth)
    moreover have "\<forall>j < (0::nat). g (xs ! j) < g (xs ! 0)" by simp
    ultimately show ?thesis by blast
  next
    assume "\<exists>k < length xs. foldl ?step (hd xs) xs = xs ! k \<and> g (hd xs) < g (xs ! k)
          \<and> (\<forall>y \<in> set xs. g y \<le> g (xs ! k)) \<and> (\<forall>j < k. g (xs ! j) < g (xs ! k))"
    then show ?thesis by blast
  qed
qed


lemma hd_sort_key_split:
  assumes "xs = pre @ x # post"
    and "\<forall>y \<in> set pre. f x < f y"
    and "\<forall>y \<in> set post. f x \<le> f y"
  shows "hd (sort_key f xs) = x"
proof -
  have "hd (sort_key f xs) = xs ! length pre"
  proof (rule hd_sort_key_first_least)
    show "length pre < length xs" using assms(1) by simp
    show "\<forall>j < length xs. f (xs ! length pre) \<le> f (xs ! j)"
    proof (intro allI impI)
      fix j assume "j < length xs"
      then have "xs ! j \<in> set pre \<or> xs ! j = x \<or> xs ! j \<in> set post"
        using assms(1) by (metis nth_mem set_ConsD set_append Un_iff)
      then show "f (xs ! length pre) \<le> f (xs ! j)"
        using assms by (auto simp: less_imp_le)
    qed
    show "\<forall>j < length pre. f (xs ! length pre) < f (xs ! j)"
      using assms(1,2) by (simp add: nth_append)
  qed
  then show ?thesis using assms(1) by simp
qed

lemma find_first_split:
  assumes "xs = pre @ x # post" and "P x" and "\<forall>y \<in> set pre. \<not> P y"
  shows "find P xs = Some x"
  using assms by (induction pre arbitrary: xs) auto

lemma foldl_greater_numeric:
  fixes Number :: "string \<Rightarrow> 'n::linorder option"
  assumes "\<forall>s \<in> set (acc # ys). Number (weight s) \<noteq> None"
  shows "foldl (\<lambda>max curr. if jsGreater (Number (weight curr)) (Number (weight max))
                            then curr else max) acc ys
       = foldl (\<lambda>m c. if the (Number (weight m)) < the (Number (weight c)) then c else m) acc ys"
  using assms
proof (induction ys arbitrary: acc)
  case Nil
  then show ?case by simp
next
  case (Cons y ys)
  from Cons.prems obtain a b where ab: "Number (weight acc) = Some a" "Number (weight y) = Some b"
    by auto
  have rest: "\<forall>s \<in> set ys. Number (weight s) \<noteq> None" using Cons.prems by simp
  show ?case
  proof (cases "a < b")
    case True
    have "\<forall>s \<in> set (y # ys). Number (weight s) \<noteq> None" using ab rest by simp
    from Cons.IH[OF this] True ab show ?thesis by (simp add: jsGreater_def)
  next
    case False
    have "\<forall>s \<in> set (acc # ys). Number (weight s) \<noteq> None" using ab rest by simp
    from Cons.IH[OF this] False ab show ?thesis by (simp add: jsGreater_def)
  qed
qed

lemma matches_split:
  assumes "hist = before @ r # after"
    and "find (\<lambda>e. exerciseId e = i) (r_exercises r) = Some entry"
  shows "List.map_filter
           (\<lambda>workout. case find (\<lambda>e. exerciseId e = i) (r_exercises workout) of
                         Some ex \<Rightarrow> Some (r_date workout, sets ex)
                       | None \<Rightarrow> None) hist
       = List.map_filter
           (\<lambda>workout. case find (\<lambda>e. exerciseId e = i) (r_exercises workout) of
                         Some ex \<Rightarrow> Some (r_date workout, sets ex)
                       | None \<Rightarrow> None) before
         @ (r_date r, sets entry)
         # List.map_filter
           (\<lambda>workout. case find (\<lambda>e. exerciseId e = i) (r_exercises workout) of
                         Some ex \<Rightarrow> Some (r_date workout, sets ex)
                       | None \<Rightarrow> None) after"
  using assms by (simp add: List.map_filter_def)

lemma matches_dates:
  assumes "m \<in> set (List.map_filter
           (\<lambda>workout. case find (\<lambda>e. exerciseId e = i) (r_exercises workout) of
                         Some ex \<Rightarrow> Some (r_date workout, sets ex)
                       | None \<Rightarrow> None) hist)"
  shows "\<exists>x \<in> set hist. (\<exists>e \<in> set (r_exercises x). exerciseId e = i) \<and> fst m = r_date x"
proof -
  from assms obtain x where x: "x \<in> set hist"
      "find (\<lambda>e. exerciseId e = i) (r_exercises x) \<noteq> None"
      "m = the (case find (\<lambda>e. exerciseId e = i) (r_exercises x) of
                 Some ex \<Rightarrow> Some (r_date x, sets ex) | None \<Rightarrow> None)"
    by (auto simp: List.map_filter_def split: option.splits)
  from x(2) have "\<exists>e \<in> set (r_exercises x). exerciseId e = i"
    by (simp add: find_None_set)
  moreover from x(2,3) have "fst m = r_date x" by auto
  ultimately show ?thesis using x(1) by blast
qed

text \<open>
  Claim C9, as the code has it. When no record of the history has an entry for the
  exercise, \<open>getLastExercisePerformance\<close> returns \<open>null\<close>. Otherwise let \<open>r\<close> be the most
  recent record by date among the records that have one (the first of them in the
  history when several share that date), and \<open>entry\<close> the first entry of \<open>r\<close> for the
  exercise. If \<open>entry\<close> has a set and every weight in it is a number, the result is the
  weight and reps of the set of \<open>entry\<close> whose weight is greatest as a number, the first
  such set among equals. Sets of a later entry of \<open>r\<close> for the same exercise are not
  looked at.
\<close>

theorem getLastExercisePerformance_latest_best_set:
  fixes Number :: "string \<Rightarrow> 'n::linorder option"
  shows
    "((\<forall>x \<in> set (workoutHistory st). \<forall>e \<in> set (r_exercises x). exerciseId e \<noteq> i)
        \<longrightarrow> getLastExercisePerformance Number i st = Null)
   \<and> (workoutHistory st = before @ r # after
       \<and> (\<forall>x \<in> set before. (\<exists>e \<in> set (r_exercises x). exerciseId e = i) \<longrightarrow> r_date x < r_date r)
       \<and> (\<forall>x \<in> set after. (\<exists>e \<in> set (r_exercises x). exerciseId e = i) \<longrightarrow> r_date x \<le> r_date r)
       \<and> r_exercises r = es1 @ entry # es2
       \<and> exerciseId entry = i
       \<and> (\<forall>e \<in> set es1. exerciseId e \<noteq> i)
       \<and> sets entry \<noteq> []
       \<and> (\<forall>s \<in> set (sets entry). Number (weight s) \<noteq> None)
      \<longrightarrow> (\<exists>k < length (sets entry).
             getLastExercisePerformance Number i st =
               Performance (weight (sets entry ! k)) (reps (sets entry ! k))
           \<and> (\<forall>s \<in> set (sets entry).
                 the (Number (weight s)) \<le> the (Number (weight (sets entry ! k))))
           \<and> (\<forall>j < k. the (Number (weight (sets entry ! j)))
                        < the (Number (weight (sets entry ! k))))))"
proof (intro conjI impI)
  let ?F = "\<lambda>workout. case find (\<lambda>e. exerciseId e = i) (r_exercises workout) of
                         Some ex \<Rightarrow> Some (r_date workout, sets ex)
                       | None \<Rightarrow> None"
  assume "\<forall>x \<in> set (workoutHistory st). \<forall>e \<in> set (r_exercises x). exerciseId e \<noteq> i"
  then have "\<forall>x \<in> set (workoutHistory st). ?F x = None"
    by (auto simp: find_None_set split: option.splits)
  then have "List.map_filter ?F (workoutHistory st) = []"
    by (simp add: List.map_filter_def filter_empty_conv)
  then show "getLastExercisePerformance Number i st = Null"
    by (simp add: getLastExercisePerformance_def)
next
  let ?F = "\<lambda>workout. case find (\<lambda>e. exerciseId e = i) (r_exercises workout) of
                         Some ex \<Rightarrow> Some (r_date workout, sets ex)
                       | None \<Rightarrow> None"
  let ?g = "\<lambda>s. the (Number (weight s))"
  assume a: "workoutHistory st = before @ r # after
       \<and> (\<forall>x \<in> set before. (\<exists>e \<in> set (r_exercises x). exerciseId e = i) \<longrightarrow> r_date x < r_date r)
       \<and> (\<forall>x \<in> set after. (\<exists>e \<in> set (r_exercises x). exerciseId e = i) \<longrightarrow> r_date x \<le> r_date r)
       \<and> r_exercises r = es1 @ entry # es2
       \<and> exerciseId entry = i
       \<and> (\<forall>e \<in> set es1. exerciseId e \<noteq> i)
       \<and> sets entry \<noteq> []
       \<and> (\<forall>s \<in> set (sets entry). Number (weight s) \<noteq> None)"
  have fe: "find (\<lambda>e. exerciseId e = i) (r_exercises r) = Some entry"
    using a by (intro find_first_split[of _ es1 _ es2]) auto
  have m: "List.map_filter ?F (workoutHistory st) =
      List.map_filter ?F before @ (r_date r, sets entry) # List.map_filter ?F after"
    using a fe by (intro matches_split) auto
  have pre: "\<forall>y \<in> set (List.map_filter ?F before). - fst (r_date r, sets entry) < - fst y"
  proof
    fix y assume "y \<in> set (List.map_filter ?F before)"
    from matches_dates[OF this] a show "- fst (r_date r, sets entry) < - fst y" by auto
  qed
  have post: "\<forall>y \<in> set (List.map_filter ?F after). - fst (r_date r, sets entry) \<le> - fst y"
  proof
    fix y assume "y \<in> set (List.map_filter ?F after)"
    from matches_dates[OF this] a show "- fst (r_date r, sets entry) \<le> - fst y" by auto
  qed
  have last: "hd (sort_key (\<lambda>m. - fst m) (List.map_filter ?F (workoutHistory st))) =
      (r_date r, sets entry)"
    by (rule hd_sort_key_split[OF m pre post])
  obtain s0 rest where sr: "sets entry = s0 # rest"
    using a by (cases "sets entry") auto
  have num: "\<forall>s \<in> set (s0 # sets entry). Number (weight s) \<noteq> None"
    using a sr by auto
  have mne: "List.map_filter ?F (workoutHistory st) \<noteq> []"
    using m by simp
  have r1: "getLastExercisePerformance Number i st =
      (case sets entry of
         [] \<Rightarrow> Throws
       | s0 # _ \<Rightarrow>
           Performance
             (weight (foldl (\<lambda>max curr. if jsGreater (Number (weight curr)) (Number (weight max))
                                          then curr else max) s0 (sets entry)))
             (reps (foldl (\<lambda>max curr. if jsGreater (Number (weight curr)) (Number (weight max))
                                        then curr else max) s0 (sets entry))))"
    using mne last by (simp add: getLastExercisePerformance_def Let_def split: list.splits)
  have hd0: "hd (sets entry) = s0" using sr by simp
  have res: "getLastExercisePerformance Number i st =
      Performance (weight (foldl (\<lambda>m c. if ?g m < ?g c then c else m) (hd (sets entry)) (sets entry)))
                  (reps (foldl (\<lambda>m c. if ?g m < ?g c then c else m) (hd (sets entry)) (sets entry)))"
    unfolding r1 hd0 foldl_greater_numeric[OF num, symmetric]
    by (simp add: sr)
  from reduce_first_greatest[of "sets entry" ?g] a
  obtain k where k: "k < length (sets entry)"
      "foldl (\<lambda>m c. if ?g m < ?g c then c else m) (hd (sets entry)) (sets entry) = sets entry ! k"
      "\<forall>y \<in> set (sets entry). ?g y \<le> ?g (sets entry ! k)"
      "\<forall>j < k. ?g (sets entry ! j) < ?g (sets entry ! k)"
    by blast
  show "\<exists>k < length (sets entry).
             getLastExercisePerformance Number i st =
               Performance (weight (sets entry ! k)) (reps (sets entry ! k))
           \<and> (\<forall>s \<in> set (sets entry).
                 the (Number (weight s)) \<le> the (Number (weight (sets entry ! k))))
           \<and> (\<forall>j < k. the (Number (weight (sets entry ! j)))
                        < the (Number (weight (sets entry ! k))))"
    using k res by (intro exI[of _ k]) simp
qed


text \<open>Two records hold exercise 1: the later one has sets of 100, 140 and 140, and the
  first set of 140 is returned. No record holds exercise 2.\<close>

theorem getLastExercisePerformance_latest_best_set_witness:
  "getLastExercisePerformance NumberOfDigits 1 twoRecords = Performance ''140'' ''5''
   \<and> getLastExercisePerformance NumberOfDigits 2 twoRecords = Null"
proof -
  let ?entry = "hd (r_exercises record43)"
  note best = getLastExercisePerformance_latest_best_set
  have "\<forall>x \<in> set (workoutHistory twoRecords). \<forall>e \<in> set (r_exercises x). exerciseId e \<noteq> 2"
    by (simp add: twoRecords_def record42_def record43_def)
  with best[of twoRecords 2 NumberOfDigits]
  have none: "getLastExercisePerformance NumberOfDigits 2 twoRecords = Null"
    by blast
  have hyp: "workoutHistory twoRecords = [record42] @ record43 # []
       \<and> (\<forall>x \<in> set [record42]. (\<exists>e \<in> set (r_exercises x). exerciseId e = 1)
             \<longrightarrow> r_date x < r_date record43)
       \<and> (\<forall>x \<in> set []. (\<exists>e \<in> set (r_exercises x). exerciseId e = 1)
             \<longrightarrow> r_date x \<le> r_date record43)
       \<and> r_exercises record43 = [] @ ?entry # []
       \<and> exerciseId ?entry = 1
       \<and> (\<forall>e \<in> set []. exerciseId e \<noteq> 1)
       \<and> sets ?entry \<noteq> []
       \<and> (\<forall>s \<in> set (sets ?entry). NumberOfDigits (weight s) \<noteq> None)"
    by (simp add: twoRecords_def record42_def record43_def NumberOfDigits_def)
  from best[of twoRecords 1 NumberOfDigits "[record42]" record43 "[]" "[]" ?entry "[]",
      THEN conjunct2, THEN mp, OF hyp]
  obtain k where k: "k < length (sets ?entry)"
    "getLastExercisePerformance NumberOfDigits 1 twoRecords =
       Performance (weight (sets ?entry ! k)) (reps (sets ?entry ! k))"
    "\<forall>s \<in> set (sets ?entry).
       the (NumberOfDigits (weight s)) \<le> the (NumberOfDigits (weight (sets ?entry ! k)))"
    "\<forall>j < k. the (NumberOfDigits (weight (sets ?entry ! j)))
              < the (NumberOfDigits (weight (sets ?entry ! k)))"
    by blast
  have "k = 0 \<or> k = 1 \<or> k = 2"
    using k(1) by (auto simp: record43_def)
  then have "k = 1"
  proof (elim disjE)
    assume "k = 0"
    with k(3) show ?thesis by (simp add: record43_def NumberOfDigits_def)
  next
    assume "k = 1"
    then show ?thesis .
  next
    assume "k = 2"
    with k(4) have "the (NumberOfDigits (weight (sets ?entry ! 1)))
        < the (NumberOfDigits (weight (sets ?entry ! 2)))" by simp
    then show ?thesis by (simp add: record43_def NumberOfDigits_def)
  qed
  with k(2) have "getLastExercisePerformance NumberOfDigits 1 twoRecords = Performance ''140'' ''5''"
    by (simp add: record43_def)
  with none show ?thesis by simp
qed

text \<open>
  The claim as written returns the maximum-weight set of the most recent record that
  contains the exercise. A record that lists the exercise twice, with 100 in the first
  entry and 200 in the second, yields the set of 100: only the first entry is read.
\<close>

theorem getLastExercisePerformance_second_entry_counterexample:
  "map weight (concat (map sets (filter (\<lambda>e. exerciseId e = 1) (r_exercises twiceListed))))
     = [''100'', ''200'']
   \<and> NumberOfDigits ''100'' = Some 100 \<and> NumberOfDigits ''200'' = Some 200
   \<and> getLastExercisePerformance NumberOfDigits 1 (initialState\<lparr>workoutHistory := [twiceListed]\<rparr>)
     = Performance ''100'' ''5''"
  by (simp add: getLastExercisePerformance_def twiceListed_def
      List.map_filter_def jsGreater_def NumberOfDigits_def Let_def)

section \<open>A session shares no object with its template\<close>

text \<open>Building the session only appends to the store, and every reference it returns
  is a new address.\<close>

lemma newSets_extends:
  "newSets as h = Some (rs, h') \<Longrightarrow>
   \<exists>ext. h' = h @ ext \<and> (\<forall>r \<in> set rs. length h \<le> r \<and> r < length h')"
proof (induction as arbitrary: h rs)
  case Nil
  then show ?case by simp
next
  case (Cons a as)
  from Cons.prems obtain r rs' where
    rec: "newSets as (h @ [LoggingSet [] r [] False]) = Some (rs', h')" and rs: "rs = length h # rs'"
    by (auto split: if_splits cell.splits option.splits)
  from Cons.IH[OF rec] obtain ext where
    ext: "h' = (h @ [LoggingSet [] r [] False]) @ ext"
    "\<forall>x \<in> set rs'. length (h @ [LoggingSet [] r [] False]) \<le> x \<and> x < length h'" by blast
  have "h' = h @ (LoggingSet [] r [] False # ext)" using ext(1) by simp
  moreover have "\<forall>x \<in> set rs. length h \<le> x \<and> x < length h'"
    using ext rs by auto
  ultimately show ?case by blast
qed

lemma fresh_exercise_append:
  "fresh_exercise n h x \<Longrightarrow> fresh_exercise n (h @ ext) x"
  unfolding fresh_exercise_def by (fastforce simp: nth_append)

lemma fresh_exercise_le:
  "fresh_exercise n h x \<Longrightarrow> m \<le> n \<Longrightarrow> fresh_exercise m h x"
  unfolding fresh_exercise_def by fastforce

lemma newExercises_extends:
  "newExercises catalog as h = Some (xs, h') \<Longrightarrow>
   \<exists>ext. h' = h @ ext \<and> (\<forall>x \<in> set xs. fresh_exercise (length h) h' x)"
proof (induction as arbitrary: h xs)
  case Nil
  then show ?case by simp
next
  case (Cons a as)
  from Cons.prems obtain i rv targets rs h1 xs' where
    ns: "newSets targets h = Some (rs, h1)"
    and rec: "newExercises catalog as (h1 @ [Array rs] @ [SessionExercise i rv (length h1)])
          = Some (xs', h')"
    and xs: "xs = Suc (length h1) # xs'"
    by (auto simp: Let_def split: if_splits cell.splits option.splits)
  let ?c = "SessionExercise i rv (length h1)"
  let ?h3 = "h1 @ [Array rs] @ [?c]"
  from newSets_extends[OF ns] obtain e1 where
    e1: "h1 = h @ e1" "\<forall>r \<in> set rs. length h \<le> r \<and> r < length h1" by blast
  from Cons.IH[OF rec] obtain e2 where
    e2: "h' = ?h3 @ e2" "\<forall>x \<in> set xs'. fresh_exercise (length ?h3) h' x" by blast
  have hh: "h' = h @ (e1 @ [Array rs] @ [?c] @ e2)"
    using e1(1) e2(1) by simp
  have "fresh_exercise (length h) ?h3 (Suc (length h1))"
    unfolding fresh_exercise_def using e1 by (auto simp: nth_append)
  then have first: "fresh_exercise (length h) h' (Suc (length h1))"
    unfolding e2(1) by (rule fresh_exercise_append)
  have "\<forall>x \<in> set xs'. fresh_exercise (length h) h' x"
    using e2(2) e1(1) by (auto intro: fresh_exercise_le)
  with first xs hh show ?case by auto
qed

lemma sessionExercisesIn_fresh:
  assumes "sessionExercisesIn catalog t h = Some (s, h1)"
  shows "(\<exists>ext. h1 = h @ ext) \<and> fresh_session (length h) h1 s"
proof -
  from assms obtain entries xs h' where
    ne: "newExercises catalog entries h = Some (xs, h')"
    and s: "s = length h'" and h1: "h1 = h' @ [Array xs]"
    by (auto simp: sessionExercisesIn_def split: if_splits cell.splits option.splits)
  from newExercises_extends[OF ne] obtain ext where
    ext: "h' = h @ ext" "\<forall>x \<in> set xs. fresh_exercise (length h) h' x" by blast
  have "\<forall>x \<in> set xs. fresh_exercise (length h) h1 x"
    using ext(2) unfolding h1 by (auto intro: fresh_exercise_append)
  then have "fresh_session (length h) h1 s"
    unfolding fresh_session_def using s h1 ext(1) by auto
  moreover have "h1 = h @ (ext @ [Array xs])" using h1 ext(1) by simp
  ultimately show ?thesis by blast
qed

text \<open>A write to a set of such a session lands on a new address and keeps the session's
  shape.\<close>

lemma setAt_fresh:
  assumes "fresh_session n h s" and "setAt s exIndex setIndex h = Some a"
  shows "n \<le> a \<and> a < length h"
proof -
  from assms(1) obtain xs where xs: "h ! s = Array xs" "\<forall>x \<in> set xs. fresh_exercise n h x"
    unfolding fresh_session_def by blast
  from assms(2) xs(1) have ex: "exIndex < length xs"
    by (auto simp: setAt_def split: if_splits cell.splits)
  then have "fresh_exercise n h (xs ! exIndex)" using xs(2) by simp
  then obtain i rest sa ss where
    c: "h ! (xs ! exIndex) = SessionExercise i rest sa" "h ! sa = Array ss"
       "\<forall>x \<in> set ss. n \<le> x \<and> x < length h"
    unfolding fresh_exercise_def by blast
  from assms(2) xs(1) c(1,2) have "setIndex < length ss" "a = ss ! setIndex"
    by (auto simp: setAt_def split: if_splits)
  with c(3) show ?thesis by simp
qed

lemma fresh_session_write:
  assumes "fresh_session n h s" and "a < length h" and "h ! a = LoggingSet w t r c"
  shows "fresh_session n (h[a := LoggingSet w' t' r' c']) s"
proof -
  have keep: "h[a := LoggingSet w' t' r' c'] ! x = h ! x"
    if "h ! x = SessionExercise i rest sa \<or> h ! x = Array ys" for x i rest sa ys
    using that assms(3) by (cases "x = a") auto
  from assms(1) obtain xs where xs: "n \<le> s" "s < length h" "h ! s = Array xs"
      "\<forall>x \<in> set xs. fresh_exercise n h x"
    unfolding fresh_session_def by blast
  have "fresh_exercise n (h[a := LoggingSet w' t' r' c']) x" if "x \<in> set xs" for x
  proof -
    from xs(4) that obtain i rest sa ss where
      c: "n \<le> x" "x < length h" "h ! x = SessionExercise i rest sa" "n \<le> sa" "sa < length h"
         "h ! sa = Array ss" "\<forall>s \<in> set ss. n \<le> s \<and> s < length h"
      unfolding fresh_exercise_def by blast
    have "h[a := LoggingSet w' t' r' c'] ! x = SessionExercise i rest sa"
      using keep[of x i rest sa] c(3) by simp
    moreover have "h[a := LoggingSet w' t' r' c'] ! sa = Array ss"
      using keep[of sa _ _ _ ss] c(6) by simp
    ultimately show ?thesis
      unfolding fresh_exercise_def using c by auto
  qed
  moreover have "h[a := LoggingSet w' t' r' c'] ! s = Array xs"
    using keep[of s _ _ _ xs] xs(3) by simp
  ultimately show ?thesis
    unfolding fresh_session_def using xs(1,2) by auto
qed

lemma mutate_frame:
  assumes "fresh_session n h s" and "mutate s m h = Some h'"
  shows "take n h' = take n h \<and> length h' = length h \<and> fresh_session n h' s"
proof (cases m)
  case (UpdateActiveSet exIndex setIndex field v)
  with assms(2) obtain a w t r c where
    a: "setAt s exIndex setIndex h = Some a" "h ! a = LoggingSet w t r c"
    and h': "h' = h[a := (case field of Weight \<Rightarrow> LoggingSet v t r c | Reps \<Rightarrow> LoggingSet w t v c)]"
    by (auto split: option.splits cell.splits)
  from setAt_fresh[OF assms(1) a(1)] have r: "n \<le> a" "a < length h" by auto
  have "fresh_session n h' s"
    unfolding h' using fresh_session_write[OF assms(1) r(2) a(2)] by (cases field) auto
  then show ?thesis using r h' by simp
next
  case (ToggleSetComplete exIndex setIndex)
  with assms(2) obtain a w t r c where
    a: "setAt s exIndex setIndex h = Some a" "h ! a = LoggingSet w t r c"
    and h': "h' = h[a := LoggingSet w t r (\<not> c)]"
    by (auto split: option.splits cell.splits)
  from setAt_fresh[OF assms(1) a(1)] have r: "n \<le> a" "a < length h" by auto
  have "fresh_session n h' s"
    unfolding h' by (rule fresh_session_write[OF assms(1) r(2) a(2)])
  then show ?thesis using r h' by simp
qed

lemma mutations_frame:
  assumes "fresh_session n h s" and "mutations s ms h = Some h'"
  shows "take n h' = take n h \<and> length h' = length h"
  using assms
proof (induction ms arbitrary: h)
  case Nil
  then show ?case by simp
next
  case (Cons m ms)
  from Cons.prems(2) obtain h1 where h1: "mutate s m h = Some h1" "mutations s ms h1 = Some h'"
    by (auto split: option.splits)
  from mutate_frame[OF Cons.prems(1) h1(1)] Cons.IH[OF _ h1(2)]
  show ?case by simp
qed

text \<open>What is read from the old part of the store does not depend on the rest.\<close>

lemma prefix_length:
  assumes "take (length h) h' = h"
  shows "length h \<le> length h'"
proof -
  have "length (take (length h) h') = length h" using assms by simp
  then show ?thesis by simp
qed

lemma prefix_nth:
  assumes "take (length h) h' = h" and "x < length h"
  shows "h' ! x = h ! x"
  using assms by (metis nth_take)

lemma readTargets_prefix:
  "readTargets as h = Some ts \<Longrightarrow> take (length h) h' = h \<Longrightarrow> readTargets as h' = Some ts"
proof (induction as arbitrary: ts)
  case Nil
  then show ?case by simp
next
  case (Cons a as)
  from Cons.prems(2) have len: "length h \<le> length h'"
    by (rule prefix_length)
  have nth: "h' ! x = h ! x" if "x < length h" for x
    using Cons.prems(2) that by (rule prefix_nth)
  from Cons.prems(1) obtain r ts' where
    a: "a < length h" "h ! a = TargetSet r" "readTargets as h = Some ts'" "ts = \<lparr>ts_reps = r\<rparr> # ts'"
    by (auto split: if_splits cell.splits)
  from Cons.IH[OF a(3) Cons.prems(2)] a nth[OF a(1)] len show ?case by simp
qed

lemma readEntries_prefix:
  "readEntries as h = Some es \<Longrightarrow> take (length h) h' = h \<Longrightarrow> readEntries as h' = Some es"
proof (induction as arbitrary: es)
  case Nil
  then show ?case by simp
next
  case (Cons a as)
  from Cons.prems(2) have len: "length h \<le> length h'"
    by (rule prefix_length)
  have nth: "h' ! x = h ! x" if "x < length h" for x
    using Cons.prems(2) that by (rule prefix_nth)
  from Cons.prems(1) obtain i rest sa targets ts es' where
    a: "a < length h" "h ! a = TemplateEntry i rest sa" "sa < length h" "h ! sa = Array targets"
       "readTargets targets h = Some ts" "readEntries as h = Some es'"
       "es = \<lparr>t_exerciseId = i, t_restTime = rest, t_sets = ts\<rparr> # es'"
    by (auto split: if_splits cell.splits option.splits)
  from Cons.IH[OF a(6) Cons.prems(2)] readTargets_prefix[OF a(5) Cons.prems(2)]
    a nth[OF a(1)] nth[OF a(3)] len
  show ?case by simp
qed

lemma readTemplate_prefix:
  assumes "readTemplate t h = Some es" and "take (length h) h' = h"
  shows "readTemplate t h' = Some es"
proof -
  from assms(2) have len: "length h \<le> length h'"
    by (rule prefix_length)
  from assms(1) obtain entries where
    t: "t < length h" "h ! t = Array entries" "readEntries entries h = Some es"
    by (auto simp: readTemplate_def split: if_splits cell.splits)
  have "h' ! t = h ! t" using assms(2) t(1) by (rule prefix_nth)
  with readEntries_prefix[OF t(3) assms(2)] t len show ?thesis
    by (simp add: readTemplate_def)
qed

lemma readSets_prefix:
  "readSets as h = Some ss \<Longrightarrow> take (length h) h' = h \<Longrightarrow> readSets as h' = Some ss"
proof (induction as arbitrary: ss)
  case Nil
  then show ?case by simp
next
  case (Cons a as)
  from Cons.prems(2) have len: "length h \<le> length h'"
    by (rule prefix_length)
  from Cons.prems(1) obtain w t r c ss' where
    a: "a < length h" "h ! a = LoggingSet w t r c" "readSets as h = Some ss'"
       "ss = \<lparr>weight = w, targetReps = t, reps = r, completed = c\<rparr> # ss'"
    by (auto split: if_splits cell.splits)
  from Cons.IH[OF a(3) Cons.prems(2)] a prefix_nth[OF Cons.prems(2) a(1)] len
  show ?case by simp
qed

lemma readExercises_prefix:
  "readExercises as h = Some es \<Longrightarrow> take (length h) h' = h \<Longrightarrow> readExercises as h' = Some es"
proof (induction as arbitrary: es)
  case Nil
  then show ?case by simp
next
  case (Cons a as)
  from Cons.prems(2) have len: "length h \<le> length h'"
    by (rule prefix_length)
  from Cons.prems(1) obtain i rest sa refs ss es' where
    a: "a < length h" "h ! a = SessionExercise i rest sa" "sa < length h" "h ! sa = Array refs"
       "readSets refs h = Some ss" "readExercises as h = Some es'"
       "es = \<lparr>exerciseId = i, restTime = rest, sets = ss\<rparr> # es'"
    by (auto split: if_splits cell.splits option.splits)
  from Cons.IH[OF a(6) Cons.prems(2)] readSets_prefix[OF a(5) Cons.prems(2)]
    a prefix_nth[OF Cons.prems(2) a(1)] prefix_nth[OF Cons.prems(2) a(3)] len
  show ?case by simp
qed

text \<open>The store version of the instantiation succeeds on every template that the store
  holds, and what it builds reads back as the exercises of the record model.\<close>

lemma newSets_reads:
  "readTargets as h = Some ts \<Longrightarrow>
   \<exists>rs h'. newSets as h = Some (rs, h')
     \<and> readSets rs h' =
         Some (map (\<lambda>s. \<lparr>weight = [], targetReps = ts_reps s, reps = [], completed = False\<rparr>) ts)"
proof (induction as arbitrary: h ts)
  case Nil
  then show ?case by simp
next
  case (Cons a as)
  from Cons.prems obtain r ts' where
    a: "a < length h" "h ! a = TargetSet r" "readTargets as h = Some ts'" "ts = \<lparr>ts_reps = r\<rparr> # ts'"
    by (auto split: if_splits cell.splits)
  let ?h1 = "h @ [LoggingSet [] r [] False]"
  have "readTargets as ?h1 = Some ts'"
    by (rule readTargets_prefix[OF a(3)]) simp
  from Cons.IH[OF this] obtain rs h' where
    rec: "newSets as ?h1 = Some (rs, h')"
    and rd: "readSets rs h' =
      Some (map (\<lambda>s. \<lparr>weight = [], targetReps = ts_reps s, reps = [], completed = False\<rparr>) ts')"
    by blast
  from newSets_extends[OF rec] obtain ext where ext: "h' = ?h1 @ ext" by blast
  have "h' ! length h = LoggingSet [] r [] False" "length h < length h'"
    using ext by (simp_all add: nth_append)
  with rec rd a show ?case by simp
qed

lemma newExercises_reads:
  "readEntries as h = Some es \<Longrightarrow>
   \<exists>xs h'. newExercises catalog as h = Some (xs, h')
     \<and> readExercises xs h' =
         Some (sessionExercises catalog (template\<lparr>wt_exercises := es\<rparr>))"
proof (induction as arbitrary: h es)
  case Nil
  then show ?case by (simp add: sessionExercises_def)
next
  case (Cons a as)
  from Cons.prems obtain i rest sa targets ts es' where
    a: "a < length h" "h ! a = TemplateEntry i rest sa" "sa < length h" "h ! sa = Array targets"
       "readTargets targets h = Some ts" "readEntries as h = Some es'"
       "es = \<lparr>t_exerciseId = i, t_restTime = rest, t_sets = ts\<rparr> # es'"
    by (auto split: if_splits cell.splits option.splits)
  let ?sets = "map (\<lambda>s. \<lparr>weight = [], targetReps = ts_reps s, reps = [], completed = False\<rparr>) ts"
  let ?rv = "Some (case rest of Some r \<Rightarrow> r | None \<Rightarrow> getRestTimeForExercise catalog i)"
  from newSets_reads[OF a(5)] obtain rs h1 where
    ns: "newSets targets h = Some (rs, h1)" and rd: "readSets rs h1 = Some ?sets"
    by blast
  from newSets_extends[OF ns] obtain e1 where e1: "h1 = h @ e1" by blast
  let ?h3 = "h1 @ [Array rs] @ [SessionExercise i ?rv (length h1)]"
  have p3: "take (length h) ?h3 = h" using e1 by simp
  from Cons.IH[OF readEntries_prefix[OF a(6) p3]] obtain xs' h' where
    rec: "newExercises catalog as ?h3 = Some (xs', h')"
    and rx: "readExercises xs' h' = Some (sessionExercises catalog (template\<lparr>wt_exercises := es'\<rparr>))"
    by blast
  from newExercises_extends[OF rec] obtain e2 where e2: "h' = ?h3 @ e2" by blast
  have c1: "h' ! Suc (length h1) = SessionExercise i ?rv (length h1)"
    and c2: "h' ! length h1 = Array rs"
    and l: "Suc (length h1) < length h'"
    using e2 by (simp_all add: nth_append)
  have "take (length h1) h' = h1" using e2 by simp
  from readSets_prefix[OF rd this] have rd': "readSets rs h' = Some ?sets" .
  have new: "newExercises catalog (a # as) h = Some (Suc (length h1) # xs', h')"
    using a ns rec by (simp add: Let_def)
  have "readExercises (Suc (length h1) # xs') h' =
      Some (\<lparr>exerciseId = i, restTime = ?rv, sets = ?sets\<rparr>
            # sessionExercises catalog (template\<lparr>wt_exercises := es'\<rparr>))"
    using c1 c2 l rd' rx by simp
  also have "\<dots> = Some (sessionExercises catalog (template\<lparr>wt_exercises := es\<rparr>))"
    using a(7) by (simp add: sessionExercises_def split: option.splits)
  finally show ?case using new by blast
qed

lemma sessionExercisesIn_reads:
  assumes "readTemplate t h = Some es"
  shows "\<exists>s h1. sessionExercisesIn catalog t h = Some (s, h1)
     \<and> readSession s h1 = Some (sessionExercises catalog (template\<lparr>wt_exercises := es\<rparr>))"
proof -
  from assms obtain entries where
    t: "t < length h" "h ! t = Array entries" "readEntries entries h = Some es"
    by (auto simp: readTemplate_def split: if_splits cell.splits)
  from newExercises_reads[OF t(3), of catalog template] obtain xs h' where
    ne: "newExercises catalog entries h = Some (xs, h')"
    and rx: "readExercises xs h' = Some (sessionExercises catalog (template\<lparr>wt_exercises := es\<rparr>))"
    by blast
  have "sessionExercisesIn catalog t h = Some (length h', h' @ [Array xs])"
    using t ne by (simp add: sessionExercisesIn_def)
  moreover have "readSession (length h') (h' @ [Array xs]) =
      Some (sessionExercises catalog (template\<lparr>wt_exercises := es\<rparr>))"
  proof -
    have "take (length h') (h' @ [Array xs]) = h'" by simp
    from readExercises_prefix[OF rx this] show ?thesis
      by (simp add: readSession_def)
  qed
  ultimately show ?thesis by blast
qed

text \<open>
  Claim C7. Let the store hold a template (\<open>readTemplate\<close> reads its entries). Building
  the session's exercises from it, as \<open>startProgramWorkout\<close> and
  \<open>startStandaloneWorkout\<close> do, succeeds; the session's array is a new object whose
  contents are the exercises of the record model; and the template read from the
  store afterwards is the template that was there before. After any sequence of
  \<open>updateActiveSet\<close> and \<open>toggleSetComplete\<close> writes to the session, none of them
  failing, every object that existed before the session was built is unchanged, and
  the template read from the store is still the same: its entries, their rests and
  their target reps.
\<close>

theorem template_unchanged_by_session:
  assumes "readTemplate t h = Some entries"
  shows "\<exists>session h1.
      sessionExercisesIn catalog t h = Some (session, h1)
    \<and> length h \<le> session
    \<and> readSession session h1 =
        Some (sessionExercises catalog (template\<lparr>wt_exercises := entries\<rparr>))
    \<and> take (length h) h1 = h
    \<and> readTemplate t h1 = Some entries
    \<and> (\<forall>ms h2. mutations session ms h1 = Some h2 \<longrightarrow>
          take (length h) h2 = h \<and> readTemplate t h2 = Some entries)"
proof -
  from sessionExercisesIn_reads[OF assms, of catalog template] obtain session h1 where
    s: "sessionExercisesIn catalog t h = Some (session, h1)"
    and r: "readSession session h1 =
        Some (sessionExercises catalog (template\<lparr>wt_exercises := entries\<rparr>))"
    by blast
  from sessionExercisesIn_fresh[OF s] obtain ext where
    ext: "h1 = h @ ext" and fresh: "fresh_session (length h) h1 session" by blast
  have p1: "take (length h) h1 = h" using ext by simp
  have le: "length h \<le> session" using fresh unfolding fresh_session_def by simp
  have after: "take (length h) h2 = h \<and> readTemplate t h2 = Some entries"
    if "mutations session ms h1 = Some h2" for ms h2
  proof -
    from mutations_frame[OF fresh that] have p2: "take (length h) h2 = h"
      using p1 by simp
    with readTemplate_prefix[OF assms p2] show ?thesis by simp
  qed
  from s le r p1 readTemplate_prefix[OF assms p1] after show ?thesis by blast
qed


text \<open>The check of the specification: the session of "Push Day" is built, its first set
  is given a weight and reps and is ticked, and the template still reads as before.\<close>

theorem template_unchanged_by_session_witness:
  "sessionExercisesIn [benchPress] 5 pushDayStore = Some (11, pushDaySession)
   \<and> mutations 11 [UpdateActiveSet 0 0 Weight ''135'', UpdateActiveSet 0 0 Reps ''10'',
                    ToggleSetComplete 0 0] pushDaySession = Some pushDayLogged
   \<and> readSession 11 pushDayLogged =
       Some [\<lparr>exerciseId = 1, restTime = Some 120, sets = [loggedSet, emptySet, emptySet]\<rparr>]
   \<and> take 6 pushDayLogged = pushDayStore
   \<and> readTemplate 5 pushDayLogged = Some (wt_exercises pushDay)"
proof -
  let ?ms = "[UpdateActiveSet 0 0 Weight ''135'', UpdateActiveSet 0 0 Reps ''10'',
              ToggleSetComplete 0 0]"
  have rt: "readTemplate 5 pushDayStore = Some (wt_exercises pushDay)"
    by (simp add: readTemplate_def pushDayStore_def pushDay_def)
  have inst: "sessionExercisesIn [benchPress] 5 pushDayStore = Some (11, pushDaySession)"
    by (simp add: sessionExercisesIn_def pushDayStore_def pushDaySession_def)
  have mut: "mutations 11 ?ms pushDaySession = Some pushDayLogged"
    by (simp add: setAt_def pushDayStore_def pushDaySession_def pushDayLogged_def)
  have rs: "readSession 11 pushDayLogged =
       Some [\<lparr>exerciseId = 1, restTime = Some 120, sets = [loggedSet, emptySet, emptySet]\<rparr>]"
    by (simp add: readSession_def pushDayStore_def pushDayLogged_def loggedSet_def emptySet_def)
  from template_unchanged_by_session[OF rt, of "[benchPress]" pushDay] inst
  have "\<forall>ms h2. mutations 11 ms pushDaySession = Some h2 \<longrightarrow>
          take (length pushDayStore) h2 = pushDayStore
        \<and> readTemplate 5 h2 = Some (wt_exercises pushDay)"
    by auto
  with mut have "take (length pushDayStore) pushDayLogged = pushDayStore
      \<and> readTemplate 5 pushDayLogged = Some (wt_exercises pushDay)"
    by blast
  moreover have "length pushDayStore = 6" by (simp add: pushDayStore_def)
  ultimately show ?thesis using inst mut rs by simp
qed

end
